theory Spec2Isabelle
  imports Main
begin

section \<open>JavaScript values\<close>

text \<open>
  The font editor is a React component (\<^verbatim>\<open>App\<close>) whose handlers update three pieces of
  state: the font, the selection and the clipboard. The loader reads a value produced by
  \<^verbatim>\<open>JSON.parse\<close>, and stores fields of it unconverted, so the fields of a character are
  JavaScript values. Numbers are modelled as integers: the editor itself only ever produces
  integer segment masks. An integer beyond the safe range (\<^verbatim>\<open>Number.isSafeInteger\<close>) stands
  for the nearest double.
\<close>

datatype jsval =
    JUndefined
  | JNull
  | JBool bool
  | JNum int
  | JStr string
  | JArr "jsval list"
  | JObj "(string \<times> jsval) list"

datatype error = TypeError

text \<open>JavaScript truthiness (\<^verbatim>\<open>!v\<close> is its negation) and the operator \<^verbatim>\<open>a || b\<close>.\<close>

fun truthy :: "jsval \<Rightarrow> bool" where
  "truthy JUndefined = False"
| "truthy JNull = False"
| "truthy (JBool b) = b"
| "truthy (JNum n) = (n \<noteq> 0)"
| "truthy (JStr s) = (s \<noteq> [])"
| "truthy (JArr xs) = True"
| "truthy (JObj ps) = True"

definition js_or :: "jsval \<Rightarrow> jsval \<Rightarrow> jsval" where
  "js_or a b = (if truthy a then a else b)"

text \<open>\<^verbatim>\<open>typeof v === 'number'\<close>.\<close>

fun is_number :: "jsval \<Rightarrow> bool" where
  "is_number (JNum n) = True"
| "is_number v = False"

text \<open>
  Reading a property \<^verbatim>\<open>v.k\<close>, for the property names the loader reads (\<^verbatim>\<open>characters\<close>,
  \<^verbatim>\<open>name\<close>, \<^verbatim>\<open>segments\<close>): it throws on \<^verbatim>\<open>undefined\<close> and \<^verbatim>\<open>null\<close>, and booleans,
  numbers, strings and arrays have no such property. An object is the list of its own
  properties.
\<close>

definition get_prop :: "jsval \<Rightarrow> string \<Rightarrow> error + jsval" where
  "get_prop v k =
     (case v of
        JUndefined \<Rightarrow> Inl TypeError
      | JNull \<Rightarrow> Inl TypeError
      | JObj ps \<Rightarrow> Inr (case map_of ps k of Some x \<Rightarrow> x | None \<Rightarrow> JUndefined)
      | _ \<Rightarrow> Inr JUndefined)"

text \<open>
  The string a template literal \<^verbatim>\<open>`${v}`\<close> inserts for \<open>v\<close> (the operation \<^verbatim>\<open>ToString\<close>),
  which throws for some objects:
  \<^item> a string is itself, \<^verbatim>\<open>true\<close> is \<^verbatim>\<open>true\<close>;
  \<^item> a safe integer is printed in decimal; the digits JavaScript prints for a larger
    number (the shortest that read back as the same double, with an exponent from
    \<open>10\<^sup>2\<^sup>1\<close> on) are not modelled, and are left unspecified;
  \<^item> an array joins the strings of its elements with commas, \<^verbatim>\<open>null\<close> and \<^verbatim>\<open>undefined\<close>
    elements as the empty string, and throws when an element does;
  \<^item> an object parsed from JSON with an own property \<^verbatim>\<open>toString\<close> throws a
    \<^verbatim>\<open>TypeError\<close>: the property is not callable, and \<^verbatim>\<open>Object.prototype.valueOf\<close> returns
    the object itself, which is no primitive; any other object is \<^verbatim>\<open>[object Object]\<close>.
  The editor applies it to the name of a character only, which is a string unless a loaded
  file had another value there.
\<close>

fun digits :: "nat \<Rightarrow> string" where
  "digits n =
     (if n < 10 then [''0123456789'' ! n]
      else digits (n div 10) @ [''0123456789'' ! (n mod 10)])"

declare digits.simps [simp del]

text \<open>\<^verbatim>\<open>Number.isSafeInteger\<close>, for an integer.\<close>

definition safe_integer :: "int \<Rightarrow> bool" where
  "safe_integer n = (- (2 ^ 53) < n \<and> n < 2 ^ 53)"

definition number_string :: "int \<Rightarrow> string" where
  "number_string n =
     (if safe_integer n then (if n < 0 then ''-'' @ digits (nat (- n)) else digits (nat n))
      else undefined n)"

fun join_comma :: "string list \<Rightarrow> string" where
  "join_comma [] = []"
| "join_comma [s] = s"
| "join_comma (s # t # ss) = s @ '','' @ join_comma (t # ss)"

text \<open>The results of a list of conversions, or the first error among them.\<close>

fun all_results :: "(error + 'a) list \<Rightarrow> error + 'a list" where
  "all_results [] = Inr []"
| "all_results (r # rs) =
     (case r of
        Inl e \<Rightarrow> Inl e
      | Inr x \<Rightarrow> (case all_results rs of Inl e \<Rightarrow> Inl e | Inr xs \<Rightarrow> Inr (x # xs)))"

fun to_string :: "jsval \<Rightarrow> error + string" where
  "to_string JUndefined = Inr ''undefined''"
| "to_string JNull = Inr ''null''"
| "to_string (JBool b) = Inr (if b then ''true'' else ''false'')"
| "to_string (JNum n) = Inr (number_string n)"
| "to_string (JStr s) = Inr s"
| "to_string (JArr xs) =
     (case all_results
             (map (\<lambda>x. if x = JUndefined \<or> x = JNull then Inr [] else to_string x) xs) of
        Inl e \<Rightarrow> Inl e
      | Inr strs \<Rightarrow> Inr (join_comma strs))"
| "to_string (JObj ps) =
     (if ''toString'' \<in> fst ` set ps then Inl TypeError else Inr ''[object Object]'')"

section \<open>The font document, the selection and the clipboard\<close>

text \<open>
  A character is an object with the properties \<^verbatim>\<open>segments\<close> and \<^verbatim>\<open>name\<close>; a property the
  object lacks reads as \<^verbatim>\<open>undefined\<close>. A slot of the table holds \<^verbatim>\<open>null\<close> or a character;
  reading past the end of the array, or a hole of it, gives \<^verbatim>\<open>undefined\<close>.
\<close>

record character =
  segments :: jsval
  name :: jsval

datatype slot = Undefined | Null | Defined character

record font =
  font_name :: jsval
  characters :: "slot list"

text \<open>
  \<^verbatim>\<open>selected\<close> is a JavaScript \<^verbatim>\<open>Set\<close>: its elements in insertion order, without
  repetition. The indices are those of grid cells, natural numbers.
\<close>

record selection =
  anchor :: nat
  selected :: "nat list"

text \<open>A clipboard entry is \<^verbatim>\<open>{offset, char}\<close>; the clipboard starts as \<^verbatim>\<open>null\<close>.\<close>

type_synonym clipboard = "(int \<times> slot) list option"

record app_state =
  font :: font
  selection :: selection
  clipboard :: clipboard

subsection \<open>Arrays and sets\<close>

text \<open>\<^verbatim>\<open>xs[i]\<close> and \<^verbatim>\<open>xs[i] = v\<close>: a write past the end extends the array, leaving holes.\<close>

definition arr_get :: "slot list \<Rightarrow> nat \<Rightarrow> slot" where
  "arr_get xs i = (if i < length xs then xs ! i else Undefined)"

definition arr_set :: "slot list \<Rightarrow> nat \<Rightarrow> slot \<Rightarrow> slot list" where
  "arr_set xs i v =
     (if i < length xs then xs[i := v]
      else xs @ replicate (i - length xs) Undefined @ [v])"

text \<open>\<^verbatim>\<open>s.add(x)\<close>, \<^verbatim>\<open>s.delete(x)\<close> and \<^verbatim>\<open>new Set(xs)\<close>.\<close>

definition set_add :: "nat list \<Rightarrow> nat \<Rightarrow> nat list" where
  "set_add s x = (if x \<in> set s then s else s @ [x])"

definition set_delete :: "nat list \<Rightarrow> nat \<Rightarrow> nat list" where
  "set_delete s x = filter (\<lambda>y. y \<noteq> x) s"

definition new_Set :: "nat list \<Rightarrow> nat list" where
  "new_Set xs = foldl set_add [] xs"

subsection \<open>Creating a font\<close>

definition empty_character :: character where
  "empty_character = \<lparr>segments = JNum 0, name = JNull\<rparr>"

text \<open>
  \<^verbatim>\<open>createEmptyFont(name = 'Untitled Font')\<close>: the default stands in for an argument
  that is \<^verbatim>\<open>undefined\<close> or left out.
\<close>

definition createEmptyFont :: "jsval \<Rightarrow> font" where
  "createEmptyFont nm =
     \<lparr>font_name = (if nm = JUndefined then JStr ''Untitled Font'' else nm),
      characters = arr_set (replicate 256 Null) 0 (Defined empty_character)\<rparr>"

definition createSelectionRange :: "nat \<Rightarrow> nat \<Rightarrow> nat list" where
  "createSelectionRange a focus = new_Set [min a focus ..< Suc (max a focus)]"

definition initial_state :: app_state where
  "initial_state =
     \<lparr>font = createEmptyFont JUndefined,
      selection = \<lparr>anchor = 0, selected = new_Set [0]\<rparr>,
      clipboard = None\<rparr>"


section \<open>The handlers\<close>

subsection \<open>Loading and replacing the font\<close>

text \<open>
  \<^verbatim>\<open>handleLoadFont\<close>: the \<^verbatim>\<open>forEach\<close> over \<^verbatim>\<open>data.characters\<close>, with \<open>idx\<close> the index of
  the entry at the head of the list. An entry that is not \<^verbatim>\<open>null\<close> has its two properties
  read, which throws when the entry is \<^verbatim>\<open>undefined\<close>.
\<close>

fun load_forEach :: "nat \<Rightarrow> jsval list \<Rightarrow> slot list \<Rightarrow> error + slot list" where
  "load_forEach idx [] cs = Inr cs"
| "load_forEach idx (ch # rest) cs =
     (if idx < 256 \<and> ch \<noteq> JNull then
        (case get_prop ch ''segments'' of
           Inl e \<Rightarrow> Inl e
         | Inr sg \<Rightarrow>
             (case get_prop ch ''name'' of
                Inl e \<Rightarrow> Inl e
              | Inr nm \<Rightarrow>
                  load_forEach (Suc idx) rest
                    (arr_set cs idx
                       (Defined \<lparr>segments = js_or sg (JNum 0), name = js_or nm JNull\<rparr>))))
      else load_forEach (Suc idx) rest cs)"

text \<open>
  \<^verbatim>\<open>data.characters.forEach\<close> is called when \<^verbatim>\<open>data.characters\<close> is truthy; only an array
  has the method.
\<close>

definition load_characters :: "jsval \<Rightarrow> error + slot list" where
  "load_characters chars =
     (if truthy chars then
        (case chars of
           JArr entries \<Rightarrow> load_forEach 0 entries (replicate 256 Null)
         | _ \<Rightarrow> Inl TypeError)
      else Inr (replicate 256 Null))"

definition handleLoadFont :: "jsval \<Rightarrow> app_state \<Rightarrow> error + app_state" where
  "handleLoadFont data s =
     (case get_prop data ''characters'' of
        Inl e \<Rightarrow> Inl e
      | Inr chars \<Rightarrow>
          (case load_characters chars of
             Inl e \<Rightarrow> Inl e
           | Inr cs \<Rightarrow>
               (case get_prop data ''name'' of
                  Inl e \<Rightarrow> Inl e
                | Inr nm \<Rightarrow>
                    Inr (s\<lparr>font :=
                            \<lparr>font_name = js_or nm (JStr ''Loaded Font''),
                             characters =
                               (if arr_get cs 0 = Null
                                then arr_set cs 0 (Defined empty_character) else cs)\<rparr>,
                          selection := \<lparr>anchor = 0, selected = new_Set [0]\<rparr>\<rparr>))))"

text \<open>\<^verbatim>\<open>handleNewFont\<close>; \<open>confirmed\<close> is the answer to the \<^verbatim>\<open>confirm\<close> dialog.\<close>

definition handleNewFont :: "bool \<Rightarrow> app_state \<Rightarrow> app_state" where
  "handleNewFont confirmed s =
     (if confirmed then
        s\<lparr>font := createEmptyFont JUndefined,
          selection := \<lparr>anchor = 0, selected = new_Set [0]\<rparr>\<rparr>
      else s)"

definition handleFontNameChange :: "jsval \<Rightarrow> app_state \<Rightarrow> app_state" where
  "handleFontNameChange nm s = s\<lparr>font := (font s)\<lparr>font_name := nm\<rparr>\<rparr>"

subsection \<open>Selecting\<close>

text \<open>\<^verbatim>\<open>char && char.segments === 0 && !char.name\<close>\<close>

definition is_empty_content :: "slot \<Rightarrow> bool" where
  "is_empty_content sl =
     (case sl of Defined c \<Rightarrow> segments c = JNum 0 \<and> \<not> truthy (name c) | _ \<Rightarrow> False)"

text \<open>The loop of \<^verbatim>\<open>handleSelect\<close> over the previous selection.\<close>

fun revert_empty :: "nat \<Rightarrow> nat list \<Rightarrow> slot list \<Rightarrow> slot list" where
  "revert_empty index [] cs = cs"
| "revert_empty index (prevIndex # rest) cs =
     revert_empty index rest
       (if prevIndex \<noteq> index \<and> is_empty_content (arr_get cs prevIndex)
        then arr_set cs prevIndex Null else cs)"

text \<open>The update of the font in \<^verbatim>\<open>handleSelect\<close>, given the selected set of the selection.\<close>

definition select_font :: "nat \<Rightarrow> bool \<Rightarrow> nat list \<Rightarrow> font \<Rightarrow> font" where
  "select_font index shift sel prevFont =
     (let newCharacters = revert_empty index sel (characters prevFont);
          newCharacters =
            (if \<not> shift \<and> arr_get newCharacters index = Null
             then arr_set newCharacters index (Defined empty_character)
             else newCharacters)
      in prevFont\<lparr>characters := newCharacters\<rparr>)"

text \<open>The update of the selection in \<^verbatim>\<open>handleSelect\<close>.\<close>

definition select_selection :: "nat \<Rightarrow> bool \<Rightarrow> bool \<Rightarrow> selection \<Rightarrow> selection" where
  "select_selection index shift ctrl prev =
     (if shift then
        \<lparr>anchor = anchor prev, selected = createSelectionRange (anchor prev) index\<rparr>
      else if ctrl then
        (if index \<in> set (selected prev) then
           (let newSelected = set_delete (selected prev) index in
            if index = anchor prev then
              \<lparr>anchor = (if length newSelected > 0 then newSelected ! 0 else index),
               selected = (if length newSelected > 0 then newSelected else new_Set [index])\<rparr>
            else \<lparr>anchor = index, selected = newSelected\<rparr>)
         else \<lparr>anchor = index, selected = set_add (selected prev) index\<rparr>)
      else \<lparr>anchor = index, selected = new_Set [index]\<rparr>)"

definition handleSelect :: "nat \<Rightarrow> bool \<Rightarrow> bool \<Rightarrow> app_state \<Rightarrow> app_state" where
  "handleSelect index shift ctrl s =
     s\<lparr>font := select_font index shift (selected (selection s)) (font s),
       selection := select_selection index shift ctrl (selection s)\<rparr>"

subsection \<open>Editing the character at the anchor\<close>

definition handleUpdateCharacter :: "character \<Rightarrow> app_state \<Rightarrow> app_state" where
  "handleUpdateCharacter c s =
     s\<lparr>font := (font s)\<lparr>characters :=
          arr_set (characters (font s)) (anchor (selection s)) (Defined c)\<rparr>\<rparr>"

text \<open>
  \<^verbatim>\<open>handleCopyFrom\<close>: the object spread \<^verbatim>\<open>{...newCharacters[anchor], segments: ...}\<close> of
  \<^verbatim>\<open>null\<close> or \<^verbatim>\<open>undefined\<close> has no property but \<^verbatim>\<open>segments\<close>.
\<close>

definition handleCopyFrom :: "nat \<Rightarrow> app_state \<Rightarrow> app_state" where
  "handleCopyFrom fromIndex s =
     (case arr_get (characters (font s)) fromIndex of
        Defined sourceChar \<Rightarrow>
          s\<lparr>font := (font s)\<lparr>characters :=
               arr_set (characters (font s)) (anchor (selection s))
                 (Defined
                    (case arr_get (characters (font s)) (anchor (selection s)) of
                       Defined c \<Rightarrow> c\<lparr>segments := segments sourceChar\<rparr>
                     | _ \<Rightarrow> \<lparr>segments = segments sourceChar, name = JUndefined\<rparr>))\<rparr>\<rparr>
      | _ \<Rightarrow> s)"

subsection \<open>Moving and copying by drag and drop\<close>

text \<open>
  \<open>fromIndex\<close> and \<open>toIndex\<close> are integers: the handlers themselves test
  \<^verbatim>\<open>toIndex < 0\<close>, and a destination \<open>src + offset\<close> may be negative. A move is
  \<^verbatim>\<open>{src, dst}\<close>: the pair of the source and its destination. A destination is used as
  an index only after the bounds check.
\<close>

definition make_moves :: "nat list \<Rightarrow> int \<Rightarrow> (nat \<times> int) list" where
  "make_moves sel offset =
     map (\<lambda>srcIdx. (srcIdx, int srcIdx + offset)) (sort sel)"

definition out_of_bounds :: "int \<Rightarrow> bool" where
  "out_of_bounds dst = (dst < 0 \<or> dst \<ge> 256)"

text \<open>The first loop of \<^verbatim>\<open>handleReorder\<close>: clearing sources that are not destinations.\<close>

fun clear_sources :: "int list \<Rightarrow> (nat \<times> int) list \<Rightarrow> slot list \<Rightarrow> slot list" where
  "clear_sources dstSet [] cs = cs"
| "clear_sources dstSet (m # rest) cs =
     clear_sources dstSet rest
       (if int (fst m) \<notin> set dstSet then arr_set cs (fst m) Null else cs)"

text \<open>The second loop: a moved character is \<^verbatim>\<open>{dst, char}\<close>.\<close>

fun place_chars :: "(int \<times> slot) list \<Rightarrow> slot list \<Rightarrow> slot list" where
  "place_chars [] cs = cs"
| "place_chars (mc # rest) cs = place_chars rest (arr_set cs (nat (fst mc)) (snd mc))"

definition reorder_characters :: "(nat \<times> int) list \<Rightarrow> slot list \<Rightarrow> slot list" where
  "reorder_characters moves prev =
     (let movedChars = map (\<lambda>m. (snd m, arr_get prev (fst m))) moves;
          dstSet = map snd moves
      in place_chars movedChars (clear_sources dstSet moves prev))"

definition clamp_anchor :: "int \<Rightarrow> nat" where
  "clamp_anchor newAnchor = nat (max 0 (min 255 newAnchor))"

definition handleReorder :: "int \<Rightarrow> int \<Rightarrow> app_state \<Rightarrow> app_state" where
  "handleReorder fromIndex toIndex s =
     (if fromIndex = toIndex then s
      else if toIndex < 0 \<or> toIndex \<ge> 256 then s
      else
        (let offset = toIndex - fromIndex;
             moves = make_moves (selected (selection s)) offset
         in if list_ex (\<lambda>m. out_of_bounds (snd m)) moves then s
            else
              s\<lparr>font := (font s)\<lparr>characters :=
                     reorder_characters moves (characters (font s))\<rparr>,
                selection :=
                  \<lparr>anchor = clamp_anchor (int (anchor (selection s)) + offset),
                   selected = new_Set (map (\<lambda>m. nat (snd m)) moves)\<rparr>\<rparr>))"

text \<open>
  The object \<^verbatim>\<open>{segments: c.segments, name: c.name ? `${c.name}_copy` : null}\<close> that
  \<^verbatim>\<open>handleCopyCharacter\<close> and \<^verbatim>\<open>handlePaste\<close> build; the template literal may throw.
\<close>

definition copy_of :: "character \<Rightarrow> error + character" where
  "copy_of c =
     (if truthy (name c) then
        (case to_string (name c) of
           Inl e \<Rightarrow> Inl e
         | Inr str \<Rightarrow> Inr \<lparr>segments = segments c, name = JStr (str @ ''_copy'')\<rparr>)
      else Inr \<lparr>segments = segments c, name = JNull\<rparr>)"

text \<open>A name the editor itself gives: a string, or none (a falsy value).\<close>

fun plain_name :: "jsval \<Rightarrow> bool" where
  "plain_name (JStr str) = True"
| "plain_name v = (\<not> truthy v)"

text \<open>The loop of \<^verbatim>\<open>handleCopyCharacter\<close>; it reads the sources from the previous table.\<close>

fun place_copies ::
  "slot list \<Rightarrow> (nat \<times> int) list \<Rightarrow> slot list \<Rightarrow> error + slot list" where
  "place_copies prev [] cs = Inr cs"
| "place_copies prev (c # rest) cs =
     (case arr_get prev (fst c) of
        Defined sourceChar \<Rightarrow>
          (case copy_of sourceChar of
             Inl e \<Rightarrow> Inl e
           | Inr copied \<Rightarrow> place_copies prev rest (arr_set cs (nat (snd c)) (Defined copied)))
      | _ \<Rightarrow> place_copies prev rest cs)"

definition handleCopyCharacter :: "int \<Rightarrow> int \<Rightarrow> app_state \<Rightarrow> error + app_state" where
  "handleCopyCharacter fromIndex toIndex s =
     (if fromIndex = toIndex then Inr s
      else if toIndex < 0 \<or> toIndex \<ge> 256 then Inr s
      else
        (let offset = toIndex - fromIndex;
             copies = make_moves (selected (selection s)) offset
         in if list_ex (\<lambda>c. out_of_bounds (snd c)) copies then Inr s
            else
              (case place_copies (characters (font s)) copies (characters (font s)) of
                 Inl e \<Rightarrow> Inl e
               | Inr newCharacters \<Rightarrow>
                   Inr (s\<lparr>font := (font s)\<lparr>characters := newCharacters\<rparr>,
                         selection :=
                           \<lparr>anchor = clamp_anchor (int (anchor (selection s)) + offset),
                            selected = new_Set (map (\<lambda>c. nat (snd c)) copies)\<rparr>\<rparr>))))"

subsection \<open>The clipboard\<close>

definition snapshot :: "app_state \<Rightarrow> (int \<times> slot) list" where
  "snapshot s =
     filter (\<lambda>item. snd item \<noteq> Null)
       (map (\<lambda>idx. (int idx - int (anchor (selection s)), arr_get (characters (font s)) idx))
          (sort (selected (selection s))))"

definition handleCopySelection :: "app_state \<Rightarrow> app_state" where
  "handleCopySelection s =
     (if length (snapshot s) > 0 then s\<lparr>clipboard := Some (snapshot s)\<rparr> else s)"

text \<open>
  The loop of \<^verbatim>\<open>handlePaste\<close>: a paste is \<^verbatim>\<open>{dst, char}\<close>. Reading \<^verbatim>\<open>char.segments\<close>
  throws when the stored value is not an object, and the template literal may throw.
\<close>

fun place_pastes :: "(int \<times> slot) list \<Rightarrow> slot list \<Rightarrow> error + slot list" where
  "place_pastes [] cs = Inr cs"
| "place_pastes (p # rest) cs =
     (case snd p of
        Defined c \<Rightarrow>
          (case copy_of c of
             Inl e \<Rightarrow> Inl e
           | Inr copied \<Rightarrow> place_pastes rest (arr_set cs (nat (fst p)) (Defined copied)))
      | _ \<Rightarrow> Inl TypeError)"

definition make_pastes :: "nat \<Rightarrow> (int \<times> slot) list \<Rightarrow> (int \<times> slot) list" where
  "make_pastes a items = map (\<lambda>item. (int a + fst item, snd item)) items"

definition handlePaste :: "app_state \<Rightarrow> error + app_state" where
  "handlePaste s =
     (case clipboard s of
        None \<Rightarrow> Inr s
      | Some items \<Rightarrow>
          if length items = 0 then Inr s
          else
            (let pastes = make_pastes (anchor (selection s)) items
             in if list_ex (\<lambda>p. out_of_bounds (fst p)) pastes then Inr s
                else
                  (case place_pastes pastes (characters (font s)) of
                     Inl e \<Rightarrow> Inl e
                   | Inr newCharacters \<Rightarrow>
                       Inr (s\<lparr>font := (font s)\<lparr>characters := newCharacters\<rparr>,
                             selection :=
                               \<lparr>anchor = anchor (selection s),
                                selected = new_Set (map (\<lambda>p. nat (fst p)) pastes)\<rparr>\<rparr>))))"

subsection \<open>Resetting\<close>

fun reset_loop :: "nat list \<Rightarrow> slot list \<Rightarrow> slot list" where
  "reset_loop [] cs = cs"
| "reset_loop (idx # rest) cs =
     reset_loop rest
       (case arr_get cs idx of
          Defined c \<Rightarrow> arr_set cs idx (Defined (c\<lparr>segments := JNum 0\<rparr>))
        | _ \<Rightarrow> cs)"

definition handleResetSelection :: "app_state \<Rightarrow> app_state" where
  "handleResetSelection s =
     s\<lparr>font := (font s)\<lparr>characters :=
          reset_loop (selected (selection s)) (characters (font s))\<rparr>\<rparr>"

subsection \<open>The keyboard\<close>

record key_event =
  ctrlKey :: bool
  metaKey :: bool
  shiftKey :: bool
  key :: string

text \<open>The \<^verbatim>\<open>switch\<close> of \<^verbatim>\<open>handleKeyDown\<close> on the four arrow keys.\<close>

definition arrow_next :: "string \<Rightarrow> nat \<Rightarrow> nat" where
  "arrow_next k current =
     (if k = ''ArrowUp'' then (if current \<ge> 16 then current - 16 else current)
      else if k = ''ArrowDown'' then (if current < 240 then current + 16 else current)
      else if k = ''ArrowLeft'' then (if current > 0 then current - 1 else current)
      else if k = ''ArrowRight'' then (if current < 255 then current + 1 else current)
      else current)"

definition handleKeyDown :: "key_event \<Rightarrow> app_state \<Rightarrow> error + app_state" where
  "handleKeyDown e s =
     (if (ctrlKey e \<or> metaKey e) \<and> key e = ''c'' then Inr (handleCopySelection s)
      else if (ctrlKey e \<or> metaKey e) \<and> key e = ''v'' then handlePaste s
      else if key e = ''Delete'' \<or> key e = ''Backspace'' then Inr (handleResetSelection s)
      else if key e \<in> set [''ArrowUp'', ''ArrowDown'', ''ArrowLeft'', ''ArrowRight''] then
        (let current = anchor (selection s);
             next = arrow_next (key e) current
         in if next \<noteq> current then Inr (handleSelect next (shiftKey e) False s)
            else Inr s)
      else Inr s)"

section \<open>The editor as a transition system\<close>

text \<open>One event of the user interface runs one handler to completion.\<close>

datatype event =
    LoadFont jsval
  | NewFont bool
  | FontNameChange jsval
  | Select nat bool bool
  | UpdateCharacter character
  | CopyFrom nat
  | Reorder int int
  | CopyCharacter int int
  | CopySelection
  | Paste
  | ResetSelection
  | KeyDown key_event

fun step :: "event \<Rightarrow> app_state \<Rightarrow> error + app_state" where
  "step (LoadFont data) s = handleLoadFont data s"
| "step (NewFont confirmed) s = Inr (handleNewFont confirmed s)"
| "step (FontNameChange nm) s = Inr (handleFontNameChange nm s)"
| "step (Select index shift ctrl) s = Inr (handleSelect index shift ctrl s)"
| "step (UpdateCharacter c) s = Inr (handleUpdateCharacter c s)"
| "step (CopyFrom fromIndex) s = Inr (handleCopyFrom fromIndex s)"
| "step (Reorder fromIndex toIndex) s = Inr (handleReorder fromIndex toIndex s)"
| "step (CopyCharacter fromIndex toIndex) s = handleCopyCharacter fromIndex toIndex s"
| "step CopySelection s = Inr (handleCopySelection s)"
| "step Paste s = handlePaste s"
| "step ResetSelection s = Inr (handleResetSelection s)"
| "step (KeyDown e) s = handleKeyDown e s"

text \<open>
  A sequence of events; a handler that throws ends it. (The loader throws before it sets
  any state, so a rejected file leaves the state as it was.)
\<close>

fun run :: "event list \<Rightarrow> app_state \<Rightarrow> error + app_state" where
  "run [] s = Inr s"
| "run (ev # evs) s = (case step ev s of Inl e \<Rightarrow> Inl e | Inr s' \<Rightarrow> run evs s')"

text \<open>The grid has the cells 0 to 255, and a click selects one of them.\<close>

fun index_in_grid :: "event \<Rightarrow> bool" where
  "index_in_grid (Select index shift ctrl) = (index < 256)"
| "index_in_grid ev = True"

section \<open>Example states\<close>

text \<open>
  A named character, and a state reached from the initial one: the character is stored at
  slot 0, slot 3 is clicked, then slot 1 is shift-clicked. The shift-click reverts the blank
  slot 3, so the anchor 3 is an empty slot while \<open>{1, 2, 3}\<close> is selected.
\<close>

definition char_A :: character where
  "char_A = \<lparr>segments = JNum 5, name = JStr ''A''\<rparr>"

definition demo_state :: app_state where
  "demo_state =
     handleSelect 1 True False
       (handleSelect 3 False False (handleUpdateCharacter char_A initial_state))"

text \<open>
  A state with a clipboard: the character is stored at slot 0, slot 2 is ctrl-clicked, the
  selection \<open>{0, 2}\<close> with anchor 2 is copied, and slot 1 is clicked. The clipboard holds
  the offsets \<open>-2\<close> and \<open>0\<close>, and the anchor is 1.
\<close>

definition demo_clip_state :: app_state where
  "demo_clip_state =
     handleSelect 1 False False
       (handleCopySelection
          (handleSelect 2 False True (handleUpdateCharacter char_A initial_state)))"

definition char_B :: character where
  "char_B = \<lparr>segments = JNum 7, name = JStr ''B''\<rparr>"

definition char_C :: character where
  "char_C = \<lparr>segments = JNum 9, name = JNull\<rparr>"

text \<open>
  Three characters at the slots 2, 3 and 4, all selected, with the anchor 4.
\<close>

definition move_state :: app_state where
  "move_state =
     handleSelect 2 True False
       (handleUpdateCharacter char_C (handleSelect 4 False False
          (handleUpdateCharacter char_B (handleSelect 3 False False
             (handleUpdateCharacter char_A (handleSelect 2 False False initial_state))))))"


text \<open>
  The scenario of the clipboard: the characters \<open>char_B\<close> at slot 6 and \<open>char_A\<close> at slot
  4, both selected with the anchor 4; then the selection is copied and slot 20 is clicked.
\<close>

definition copy_state :: app_state where
  "copy_state =
     handleUpdateCharacter char_A (handleSelect 4 False True
       (handleUpdateCharacter char_B (handleSelect 6 False False initial_state)))"

definition paste_state :: app_state where
  "paste_state = handleSelect 20 False False (handleCopySelection copy_state)"

text \<open>
  A file whose entries are not all well formed: non-numeric segments and no name, a
  \<^verbatim>\<open>null\<close> entry, no segments, and an empty name.
\<close>

definition odd_data :: jsval where
  "odd_data =
     JObj [(''characters'',
            JArr [JObj [(''segments'', JStr ''abc'')],
                  JNull,
                  JObj [(''name'', JStr ''B'')],
                  JObj [(''segments'', JNum 9), (''name'', JStr [])]])]"

text \<open>The right and the left arrow key, with no modifier held.\<close>

definition arrow_right :: key_event where
  "arrow_right = \<lparr>ctrlKey = False, metaKey = False, shiftKey = False, key = ''ArrowRight''\<rparr>"

definition arrow_left :: key_event where
  "arrow_left = \<lparr>ctrlKey = False, metaKey = False, shiftKey = False, key = ''ArrowLeft''\<rparr>"

text \<open>
  The character at slot 1, then a click on slot 3 and a shift-click on slot 1: the anchor 3
  is an empty slot and \<open>{1, 2, 3}\<close> is selected.
\<close>

definition gap_state :: app_state where
  "gap_state =
     handleSelect 1 True False
       (handleSelect 3 False False
          (handleUpdateCharacter char_A (handleSelect 1 False False initial_state)))"

text \<open>
  A file whose one character has an object for its name, with an own property
  \<^verbatim>\<open>toString\<close>: the loader keeps the name, which no template literal can print.
\<close>

definition odd_name_data :: jsval where
  "odd_name_data =
     JObj [(''characters'',
            JArr [JObj [(''segments'', JNum 1),
                        (''name'', JObj [(''toString'', JNum 1)])]])]"

section \<open>The grid invariant\<close>

text \<open>
  The table has its 256 slots, none of them a hole; the anchor and the selected indices are
  cells of the grid; the clipboard holds characters only.
\<close>

definition table_ok :: "slot list \<Rightarrow> bool" where
  "table_ok cs = (length cs = 256 \<and> list_all (\<lambda>sl. sl \<noteq> Undefined) cs)"

definition clipboard_ok :: "clipboard \<Rightarrow> bool" where
  "clipboard_ok cb =
     (case cb of None \<Rightarrow> True
      | Some items \<Rightarrow> list_all (\<lambda>item. case snd item of Defined c \<Rightarrow> True | _ \<Rightarrow> False) items)"

definition in_grid :: "app_state \<Rightarrow> bool" where
  "in_grid s =
     (table_ok (characters (font s)) \<and>
      anchor (selection s) < 256 \<and>
      list_all (\<lambda>i. i < 256) (selected (selection s)) \<and>
      clipboard_ok (clipboard s))"

section \<open>Arrays and sets: basic facts\<close>

lemma arr_get_set: "arr_get (arr_set xs i v) j = (if j = i then v else arr_get xs j)"
  by (auto simp: arr_get_def arr_set_def nth_append nth_Cons')

lemma length_arr_set: "length (arr_set xs i v) = max (length xs) (Suc i)"
  by (auto simp: arr_set_def)

lemma length_arr_set_in: "i < length xs \<Longrightarrow> length (arr_set xs i v) = length xs"
  by (simp add: length_arr_set)

lemma arr_get_Defined_in: "arr_get xs i = Defined c \<Longrightarrow> i < length xs"
  by (auto simp: arr_get_def split: if_splits)

lemma arr_get_Null_in: "arr_get xs i = Null \<Longrightarrow> i < length xs"
  by (auto simp: arr_get_def split: if_splits)

lemma is_empty_content_simps [simp]:
  "\<not> is_empty_content Null"
  "\<not> is_empty_content Undefined"
  "is_empty_content (Defined c) = (segments c = JNum 0 \<and> \<not> truthy (name c))"
  by (simp_all add: is_empty_content_def)

lemma is_empty_content_in: "is_empty_content (arr_get xs i) \<Longrightarrow> i < length xs"
  by (auto simp: arr_get_def split: if_splits)

lemma initial_slot:
  "arr_get (characters (font initial_state)) i =
     (if i = 0 then Defined empty_character else if i < 256 then Null else Undefined)"
  by (auto simp: initial_state_def createEmptyFont_def arr_get_set) (auto simp: arr_get_def)

section \<open>Selecting a cell\<close>

lemma arr_get_revert_empty:
  "arr_get (revert_empty index sel cs) i =
     (if i \<noteq> index \<and> i \<in> set sel \<and> is_empty_content (arr_get cs i) then Null
      else arr_get cs i)"
  by (induction sel arbitrary: cs) (auto simp: arr_get_set)

lemma length_revert_empty: "length (revert_empty index sel cs) = length cs"
  by (induction sel arbitrary: cs) (auto simp: length_arr_set_in is_empty_content_in)

lemma arr_get_select_font:
  "arr_get (characters (select_font index shift sel f)) i =
     (if i = index then
        (if \<not> shift \<and> arr_get (characters f) index = Null then Defined empty_character
         else arr_get (characters f) index)
      else if i \<in> set sel \<and> is_empty_content (arr_get (characters f) i) then Null
      else arr_get (characters f) i)"
  by (simp add: select_font_def Let_def arr_get_set arr_get_revert_empty)

lemma length_select_font:
  "length (characters (select_font index shift sel f)) = length (characters f)"
  by (auto simp: select_font_def Let_def length_revert_empty length_arr_set_in
      dest: arr_get_Null_in)

text \<open>
  Claim C9. A click on \<open>index\<close> (\<^verbatim>\<open>handleSelect\<close>) leaves the table as follows: every
  index of the previous selection other than \<open>index\<close> whose character has segments 0 and
  no name holds \<^verbatim>\<open>null\<close>; the clicked slot holds \<^verbatim>\<open>{segments: 0, name: null}\<close> when shift
  is not held and it held \<^verbatim>\<open>null\<close>, and what it held otherwise; every other slot is as
  before.
\<close>

theorem handleSelect_slots:
  "arr_get (characters (font (handleSelect index shift ctrl s))) i =
     (if i = index then
        (if \<not> shift \<and> arr_get (characters (font s)) index = Null
         then Defined \<lparr>segments = JNum 0, name = JNull\<rparr>
         else arr_get (characters (font s)) index)
      else if i \<in> set (selected (selection s)) \<and>
              is_empty_content (arr_get (characters (font s)) i)
        then Null
      else arr_get (characters (font s)) i)"
proof -
  let ?cs = "characters (font s)"
  let ?reverted = "revert_empty index (selected (selection s)) ?cs"
  have new: "characters (font (handleSelect index shift ctrl s)) =
     (if \<not> shift \<and> arr_get ?reverted index = Null
      then arr_set ?reverted index (Defined empty_character) else ?reverted)"
    by (simp add: handleSelect_def select_font_def Let_def)
  have clicked: "arr_get ?reverted index = arr_get ?cs index"
    by (simp add: arr_get_revert_empty)
  show ?thesis
  proof (cases "i = index")
    case True
    then show ?thesis
      by (simp add: new clicked arr_get_set empty_character_def)
  next
    case False
    then show ?thesis
      by (simp add: new arr_get_set arr_get_revert_empty)
  qed
qed

text \<open>
  The scenario of the claim: on the empty font, a plain click on slot 5 makes slot 5 a blank
  character and slot 0 \<^verbatim>\<open>null\<close>.
\<close>

theorem handleSelect_slots_witness:
  "arr_get (characters (font (handleSelect 5 False False initial_state))) 5 =
     Defined \<lparr>segments = JNum 0, name = JNull\<rparr> \<and>
   arr_get (characters (font (handleSelect 5 False False initial_state))) 0 = Null"
proof -
  have sel: "selected (selection initial_state) = [0]"
    by (simp add: initial_state_def new_Set_def set_add_def)
  have s5: "arr_get (characters (font initial_state)) 5 = Null"
    by (simp add: initial_slot)
  have s0: "arr_get (characters (font initial_state)) 0 = Defined empty_character"
    by (simp add: initial_slot)
  show ?thesis
    using handleSelect_slots [of 5 False False initial_state 5]
      handleSelect_slots [of 5 False False initial_state 0]
    by (simp add: sel s5 s0 empty_character_def)
qed

section \<open>Copying segments from another character\<close>

text \<open>
  Claim C10. \<^verbatim>\<open>handleCopyFrom\<close> with a defined source leaves a defined character at the
  anchor whose segments are the source's; its name is the one the anchor's character had,
  and it has no name (the property is missing) when the anchor's slot held no character.
  Every other slot, the font's name, the selection and the clipboard are unchanged. With a
  source slot that holds no character the state is unchanged.
\<close>

theorem handleCopyFrom_spec:
  "(case arr_get (characters (font s)) fromIndex of
      Defined sourceChar \<Rightarrow>
        (\<exists>c. arr_get (characters (font (handleCopyFrom fromIndex s))) (anchor (selection s))
                = Defined c \<and>
              segments c = segments sourceChar \<and>
              (case arr_get (characters (font s)) (anchor (selection s)) of
                 Defined old \<Rightarrow> name c = name old
               | _ \<Rightarrow> name c = JUndefined)) \<and>
        (\<forall>i. i \<noteq> anchor (selection s) \<longrightarrow>
           arr_get (characters (font (handleCopyFrom fromIndex s))) i =
           arr_get (characters (font s)) i) \<and>
        font_name (font (handleCopyFrom fromIndex s)) = font_name (font s) \<and>
        selection (handleCopyFrom fromIndex s) = selection s \<and>
        clipboard (handleCopyFrom fromIndex s) = clipboard s
    | _ \<Rightarrow> handleCopyFrom fromIndex s = s)"
proof (cases "arr_get (characters (font s)) fromIndex")
  case Undefined
  then show ?thesis by (simp add: handleCopyFrom_def)
next
  case Null
  then show ?thesis by (simp add: handleCopyFrom_def)
next
  case (Defined sourceChar)
  let ?a = "anchor (selection s)"
  let ?new = "case arr_get (characters (font s)) ?a of
                Defined c \<Rightarrow> c\<lparr>segments := segments sourceChar\<rparr>
              | _ \<Rightarrow> \<lparr>segments = segments sourceChar, name = JUndefined\<rparr>"
  have upd: "handleCopyFrom fromIndex s =
     s\<lparr>font := (font s)\<lparr>characters := arr_set (characters (font s)) ?a (Defined ?new)\<rparr>\<rparr>"
    using Defined by (simp add: handleCopyFrom_def)
  have at_anchor: "arr_get (characters (font (handleCopyFrom fromIndex s))) ?a = Defined ?new"
    by (simp add: upd arr_get_set)
  have sg: "segments ?new = segments sourceChar"
    by (simp split: slot.splits)
  have nm: "case arr_get (characters (font s)) ?a of
              Defined old \<Rightarrow> name ?new = name old
            | _ \<Rightarrow> name ?new = JUndefined"
    by (simp split: slot.splits)
  have others: "arr_get (characters (font (handleCopyFrom fromIndex s))) i =
                arr_get (characters (font s)) i" if "i \<noteq> ?a" for i
    using that by (simp add: upd arr_get_set)
  from at_anchor sg nm others show ?thesis
    by (simp add: Defined) (simp add: upd)
qed

text \<open>
  In the example state the anchor 3 is an empty slot and slot 0 holds the character
  \<open>char_A\<close>: copying from slot 0 creates a character with its segments and no name at slot
  3 and leaves slot 0 alone.
\<close>

theorem handleCopyFrom_spec_witness:
  "arr_get (characters (font demo_state)) 0 = Defined char_A \<and>
   arr_get (characters (font demo_state)) 3 = Null \<and>
   anchor (selection demo_state) = 3 \<and>
   arr_get (characters (font (handleCopyFrom 0 demo_state))) 3 =
     Defined \<lparr>segments = JNum 5, name = JUndefined\<rparr> \<and>
   arr_get (characters (font (handleCopyFrom 0 demo_state))) 0 = Defined char_A"
proof -
  have src: "arr_get (characters (font demo_state)) 0 = Defined char_A"
    by code_simp
  have tgt: "arr_get (characters (font demo_state)) 3 = Null"
    by code_simp
  have anc: "anchor (selection demo_state) = 3"
    by code_simp
  have sg: "segments char_A = JNum 5"
    by (simp add: char_A_def)
  from handleCopyFrom_spec [where s = demo_state and fromIndex = 0] show ?thesis
    by (auto simp: src tgt anc sg)
qed

section \<open>Sets in insertion order\<close>

lemma set_foldl_set_add: "set (foldl set_add acc xs) = set acc \<union> set xs"
  by (induction xs arbitrary: acc) (auto simp: set_add_def)

lemma set_new_Set [simp]: "set (new_Set xs) = set xs"
  by (simp add: new_Set_def set_foldl_set_add)

lemma foldl_set_add_distinct: "distinct (acc @ xs) \<Longrightarrow> foldl set_add acc xs = acc @ xs"
  by (induction xs arbitrary: acc) (auto simp: set_add_def)

lemma new_Set_distinct: "distinct xs \<Longrightarrow> new_Set xs = xs"
  using foldl_set_add_distinct [of "[]" xs] by (simp add: new_Set_def)

lemma distinct_foldl_set_add: "distinct acc \<Longrightarrow> distinct (foldl set_add acc xs)"
  by (induction xs arbitrary: acc) (auto simp: set_add_def)

lemma distinct_new_Set [simp]: "distinct (new_Set xs)"
  by (simp add: new_Set_def distinct_foldl_set_add)

lemma set_createSelectionRange:
  "set (createSelectionRange a b) = {min a b .. max a b}"
  by (auto simp: createSelectionRange_def)

lemma set_set_delete [simp]: "set (set_delete s x) = set s - {x}"
  by (auto simp: set_delete_def)

lemma set_set_add [simp]: "set (set_add s x) = insert x (set s)"
  by (auto simp: set_add_def)

section \<open>The handlers preserve the grid invariant\<close>

lemma table_ok_arr_set:
  "table_ok cs \<Longrightarrow> i < 256 \<Longrightarrow> v \<noteq> Undefined \<Longrightarrow> table_ok (arr_set cs i v)"
  by (auto simp: table_ok_def arr_set_def list_all_iff dest: set_update_subset_insert [THEN subsetD])

lemma table_ok_arr_get: "table_ok cs \<Longrightarrow> i < 256 \<Longrightarrow> arr_get cs i \<noteq> Undefined"
  by (auto simp: table_ok_def arr_get_def list_all_iff)

lemma table_ok_length: "table_ok cs \<Longrightarrow> length cs = 256"
  by (simp add: table_ok_def)

lemma table_ok_replicate: "table_ok (replicate 256 Null)"
  by (simp add: table_ok_def list_all_iff)

lemma table_ok_get_in: "table_ok cs \<Longrightarrow> arr_get cs i \<noteq> Undefined \<Longrightarrow> i < 256"
  by (auto simp: table_ok_def arr_get_def split: if_splits)

lemma table_ok_empty_in: "table_ok cs \<Longrightarrow> is_empty_content (arr_get cs i) \<Longrightarrow> i < 256"
  using is_empty_content_in [of cs i] by (simp add: table_ok_def)

lemma table_ok_Defined_in: "table_ok cs \<Longrightarrow> arr_get cs i = Defined c \<Longrightarrow> i < 256"
  using arr_get_Defined_in [of cs i c] by (simp add: table_ok_def)

lemma table_ok_Null_in: "table_ok cs \<Longrightarrow> arr_get cs i = Null \<Longrightarrow> i < 256"
  using arr_get_Null_in [of cs i] by (simp add: table_ok_def)

lemma table_ok_revert_empty: "table_ok cs \<Longrightarrow> table_ok (revert_empty index sel cs)"
  by (induction sel arbitrary: cs) (auto simp: table_ok_arr_set table_ok_empty_in)

lemma table_ok_select_font:
  assumes "table_ok (characters f)"
  shows "table_ok (characters (select_font index shift sel f))"
proof -
  have ok: "table_ok (revert_empty index sel (characters f))"
    using assms by (rule table_ok_revert_empty)
  show ?thesis
    using ok table_ok_Null_in [OF ok, of index]
    by (auto simp: select_font_def Let_def table_ok_arr_set)
qed

lemma table_ok_clear_sources:
  "table_ok cs \<Longrightarrow> list_all (\<lambda>m. fst m < 256) moves \<Longrightarrow> table_ok (clear_sources dstSet moves cs)"
  by (induction moves arbitrary: cs) (auto simp: table_ok_arr_set)

lemma table_ok_place_chars:
  "table_ok cs \<Longrightarrow> list_all (\<lambda>mc. \<not> out_of_bounds (fst mc) \<and> snd mc \<noteq> Undefined) mcs \<Longrightarrow>
   table_ok (place_chars mcs cs)"
  by (induction mcs arbitrary: cs) (auto simp: table_ok_arr_set out_of_bounds_def)

lemma table_ok_place_copies:
  "table_ok cs \<Longrightarrow> list_all (\<lambda>c. \<not> out_of_bounds (snd c)) copies \<Longrightarrow>
   place_copies prev copies cs = Inr cs' \<Longrightarrow> table_ok cs'"
proof (induction copies arbitrary: cs)
  case Nil
  then show ?case by simp
next
  case (Cons c rest)
  from Cons.prems(2) have dst: "nat (snd c) < 256" and more: "list_all (\<lambda>c. \<not> out_of_bounds (snd c)) rest"
    by (auto simp: out_of_bounds_def)
  show ?case
  proof (cases "arr_get prev (fst c)")
    case (Defined sourceChar)
    with Cons.prems(3) obtain copied where
      rest: "place_copies prev rest (arr_set cs (nat (snd c)) (Defined copied)) = Inr cs'"
      by (auto split: sum.splits)
    have "table_ok (arr_set cs (nat (snd c)) (Defined copied))"
      using Cons.prems(1) dst by (simp add: table_ok_arr_set)
    then show ?thesis using more rest by (rule Cons.IH)
  next
    case Undefined
    with Cons.prems(3) have "place_copies prev rest cs = Inr cs'" by simp
    with Cons.prems(1) more show ?thesis by (rule Cons.IH)
  next
    case Null
    with Cons.prems(3) have "place_copies prev rest cs = Inr cs'" by simp
    with Cons.prems(1) more show ?thesis by (rule Cons.IH)
  qed
qed

lemma table_ok_place_pastes:
  "table_ok cs \<Longrightarrow> list_all (\<lambda>p. \<not> out_of_bounds (fst p)) pastes \<Longrightarrow>
   place_pastes pastes cs = Inr cs' \<Longrightarrow> table_ok cs'"
proof (induction pastes arbitrary: cs)
  case Nil
  then show ?case by simp
next
  case (Cons p rest)
  from Cons.prems(2) have dst: "nat (fst p) < 256" and more: "list_all (\<lambda>p. \<not> out_of_bounds (fst p)) rest"
    by (auto simp: out_of_bounds_def)
  from Cons.prems(3) obtain copied where
    rest: "place_pastes rest (arr_set cs (nat (fst p)) (Defined copied)) = Inr cs'"
    by (auto split: slot.splits sum.splits)
  have "table_ok (arr_set cs (nat (fst p)) (Defined copied))"
    using Cons.prems(1) dst by (simp add: table_ok_arr_set)
  then show ?case using more rest by (rule Cons.IH)
qed

text \<open>
  Copying a character whose name is a string or falsy does not throw: the name of the copy
  is the string with \<^verbatim>\<open>_copy\<close> appended, and \<^verbatim>\<open>null\<close> for a falsy name.
\<close>

lemma copy_of_plain:
  "plain_name (name c) \<Longrightarrow>
   copy_of c =
     Inr \<lparr>segments = segments c,
          name = (case name c of
                    JStr str \<Rightarrow> if str = [] then JNull else JStr (str @ ''_copy'')
                  | _ \<Rightarrow> JNull)\<rparr>"
  by (cases "name c") (simp_all add: copy_of_def)

lemma copy_of_throws:
  "truthy (name c) \<Longrightarrow> to_string (name c) = Inl e \<Longrightarrow> copy_of c = Inl e"
  by (simp add: copy_of_def)

lemma place_pastes_total:
  "list_all (\<lambda>p. case snd p of Defined c \<Rightarrow> plain_name (name c) | _ \<Rightarrow> False) pastes \<Longrightarrow>
   \<exists>cs'. place_pastes pastes cs = Inr cs'"
  by (induction pastes arbitrary: cs) (auto simp: copy_of_plain split: slot.splits)

lemma table_ok_reset_loop: "table_ok cs \<Longrightarrow> table_ok (reset_loop sel cs)"
  by (induction sel arbitrary: cs)
     (auto simp: table_ok_arr_set table_ok_Defined_in split: slot.splits)

lemma table_ok_load_forEach:
  "table_ok cs \<Longrightarrow> load_forEach idx entries cs = Inr cs' \<Longrightarrow> table_ok cs'"
proof (induction entries arbitrary: idx cs)
  case Nil
  then show ?case by simp
next
  case (Cons ch rest)
  show ?case
  proof (cases "idx < 256 \<and> ch \<noteq> JNull")
    case True
    with Cons.prems(2) obtain sg nm where
      rest: "load_forEach (Suc idx) rest
               (arr_set cs idx (Defined \<lparr>segments = js_or sg (JNum 0), name = js_or nm JNull\<rparr>))
             = Inr cs'"
      by (auto split: sum.splits)
    have "table_ok
            (arr_set cs idx (Defined \<lparr>segments = js_or sg (JNum 0), name = js_or nm JNull\<rparr>))"
      using Cons.prems(1) True by (simp add: table_ok_arr_set)
    then show ?thesis using rest by (rule Cons.IH)
  next
    case False
    with Cons.prems(2) have "load_forEach (Suc idx) rest cs = Inr cs'"
      by auto
    with Cons.prems(1) show ?thesis by (rule Cons.IH)
  qed
qed


lemma in_grid_initial: "in_grid initial_state"
  by (simp add: in_grid_def initial_state_def createEmptyFont_def table_ok_arr_set
      table_ok_replicate clipboard_ok_def list_all_iff)

lemma in_grid_handleNewFont: "in_grid s \<Longrightarrow> in_grid (handleNewFont confirmed s)"
  by (simp add: in_grid_def handleNewFont_def createEmptyFont_def table_ok_arr_set
      table_ok_replicate list_all_iff)

lemma in_grid_handleFontNameChange: "in_grid s \<Longrightarrow> in_grid (handleFontNameChange nm s)"
  by (simp add: in_grid_def handleFontNameChange_def)

lemma table_ok_load_characters: "load_characters chars = Inr cs \<Longrightarrow> table_ok cs"
  by (auto simp: load_characters_def table_ok_replicate split: if_splits jsval.splits
      dest: table_ok_load_forEach [OF table_ok_replicate])

lemma table_ok_handleLoadFont:
  "handleLoadFont data s = Inr s' \<Longrightarrow> table_ok (characters (font s'))"
  by (auto simp: handleLoadFont_def table_ok_arr_set split: sum.splits if_splits
      dest: table_ok_load_characters)

lemma in_grid_handleLoadFont:
  "clipboard_ok (clipboard s) \<Longrightarrow> handleLoadFont data s = Inr s' \<Longrightarrow> in_grid s'"
  using table_ok_handleLoadFont [of data s s']
  by (auto simp: in_grid_def handleLoadFont_def list_all_iff split: sum.splits)

lemma select_selection_in_grid:
  assumes "anchor sel < 256" "list_all (\<lambda>i. i < 256) (selected sel)" "index < 256"
  shows "anchor (select_selection index shift ctrl sel) < 256 \<and>
         list_all (\<lambda>i. i < 256) (selected (select_selection index shift ctrl sel))"
proof -
  have "set_delete (selected sel) index \<noteq> [] \<Longrightarrow>
        set_delete (selected sel) index ! 0 \<in> set (selected sel)"
    using nth_mem [of 0 "set_delete (selected sel) index"] by auto
  with assms show ?thesis
    by (auto simp: select_selection_def Let_def list_all_iff set_createSelectionRange)
qed

lemma in_grid_handleSelect:
  "in_grid s \<Longrightarrow> index < 256 \<Longrightarrow> in_grid (handleSelect index shift ctrl s)"
  using select_selection_in_grid [of "selection s" index shift ctrl]
  by (simp add: in_grid_def handleSelect_def table_ok_select_font)

lemma in_grid_handleUpdateCharacter: "in_grid s \<Longrightarrow> in_grid (handleUpdateCharacter c s)"
  by (simp add: in_grid_def handleUpdateCharacter_def table_ok_arr_set)

lemma in_grid_handleCopyFrom: "in_grid s \<Longrightarrow> in_grid (handleCopyFrom fromIndex s)"
  by (simp add: in_grid_def handleCopyFrom_def table_ok_arr_set split: slot.splits)

lemma set_make_moves:
  "set (make_moves sel offset) = (\<lambda>i. (i, int i + offset)) ` set sel"
  by (simp add: make_moves_def)

lemma clamp_anchor_less: "clamp_anchor n < 256"
  by (simp add: clamp_anchor_def)

lemma table_ok_reorder_characters:
  assumes "table_ok prev" "list_all (\<lambda>i. i < 256) sel"
    "\<not> list_ex (\<lambda>m. out_of_bounds (snd m)) (make_moves sel offset)"
  shows "table_ok (reorder_characters (make_moves sel offset) prev)"
proof -
  have src: "list_all (\<lambda>m. fst m < 256) (make_moves sel offset)"
    using assms(2) by (auto simp: list_all_iff set_make_moves)
  have dst: "list_all (\<lambda>mc. \<not> out_of_bounds (fst mc) \<and> snd mc \<noteq> Undefined)
               (map (\<lambda>m. (snd m, arr_get prev (fst m))) (make_moves sel offset))"
    using assms by (auto simp: list_all_iff list_ex_iff set_make_moves table_ok_arr_get)
  show ?thesis
    unfolding reorder_characters_def Let_def
    by (intro table_ok_place_chars table_ok_clear_sources assms(1) src dst)
qed

lemma new_selection_in_grid:
  "\<not> list_ex (\<lambda>m. out_of_bounds (snd m)) moves \<Longrightarrow>
   list_all (\<lambda>i. i < 256) (new_Set (map (\<lambda>m. nat (snd m)) moves))"
  by (auto simp: list_all_iff list_ex_iff out_of_bounds_def)

lemma in_grid_handleReorder: "in_grid s \<Longrightarrow> in_grid (handleReorder fromIndex toIndex s)"
  by (simp add: in_grid_def handleReorder_def Let_def table_ok_reorder_characters
      new_selection_in_grid clamp_anchor_less)

lemma not_list_ex: "(\<not> list_ex P xs) = list_all (\<lambda>x. \<not> P x) xs"
  by (simp add: list_all_iff list_ex_iff)

lemma in_grid_handleCopyCharacter:
  assumes "in_grid s" "handleCopyCharacter fromIndex toIndex s = Inr s'"
  shows "in_grid s'"
proof (cases "s' = s")
  case True
  with assms(1) show ?thesis by simp
next
  case False
  let ?copies = "make_moves (selected (selection s)) (toIndex - fromIndex)"
  from False assms(2) obtain cs' where
    ok: "\<not> list_ex (\<lambda>c. out_of_bounds (snd c)) ?copies" and
    pl: "place_copies (characters (font s)) ?copies (characters (font s)) = Inr cs'" and
    s': "s' = s\<lparr>font := (font s)\<lparr>characters := cs'\<rparr>,
                selection :=
                  \<lparr>anchor = clamp_anchor (int (anchor (selection s)) + (toIndex - fromIndex)),
                   selected = new_Set (map (\<lambda>c. nat (snd c)) ?copies)\<rparr>\<rparr>"
    by (auto simp: handleCopyCharacter_def Let_def split: if_splits sum.splits)
  have "table_ok cs'"
    using assms(1) ok pl by (auto simp: in_grid_def not_list_ex intro: table_ok_place_copies)
  with assms(1) ok show ?thesis
    by (simp add: in_grid_def s' new_selection_in_grid clamp_anchor_less)
qed

lemma clipboard_ok_snapshot:
  assumes "table_ok (characters (font s))" "list_all (\<lambda>i. i < 256) (selected (selection s))"
  shows "clipboard_ok (Some (snapshot s))"
proof -
  have "arr_get (characters (font s)) i \<noteq> Undefined" if "i \<in> set (selected (selection s))" for i
    using assms that by (simp add: list_all_iff table_ok_arr_get)
  then show ?thesis
    by (auto simp: clipboard_ok_def snapshot_def list_all_iff split: slot.splits) metis
qed

lemma in_grid_handleCopySelection: "in_grid s \<Longrightarrow> in_grid (handleCopySelection s)"
  by (simp add: in_grid_def handleCopySelection_def clipboard_ok_snapshot)

lemma in_grid_handlePaste:
  assumes "in_grid s" "handlePaste s = Inr s'"
  shows "in_grid s'"
proof (cases "s' = s")
  case True
  with assms(1) show ?thesis by simp
next
  case False
  with assms(2) obtain items cs' where
    ok: "\<not> list_ex (\<lambda>p. out_of_bounds (fst p)) (make_pastes (anchor (selection s)) items)" and
    pl: "place_pastes (make_pastes (anchor (selection s)) items) (characters (font s)) = Inr cs'" and
    s': "s' = s\<lparr>font := (font s)\<lparr>characters := cs'\<rparr>,
                selection :=
                  \<lparr>anchor = anchor (selection s),
                   selected = new_Set (map (\<lambda>p. nat (fst p))
                                 (make_pastes (anchor (selection s)) items))\<rparr>\<rparr>"
    by (auto simp: handlePaste_def Let_def split: option.splits if_splits sum.splits)
  have "table_ok cs'"
    using assms(1) ok pl by (auto simp: in_grid_def not_list_ex intro: table_ok_place_pastes)
  moreover have "list_all (\<lambda>i. i < 256)
      (new_Set (map (\<lambda>p. nat (fst p)) (make_pastes (anchor (selection s)) items)))"
    using ok by (auto simp: list_all_iff list_ex_iff out_of_bounds_def)
  ultimately show ?thesis
    using assms(1) by (simp add: in_grid_def s')
qed

lemma in_grid_handleResetSelection: "in_grid s \<Longrightarrow> in_grid (handleResetSelection s)"
  by (simp add: in_grid_def handleResetSelection_def table_ok_reset_loop)

lemma arrow_next_cases:
  "arrow_next k current = current \<or>
   (16 \<le> current \<and> arrow_next k current = current - 16) \<or>
   (current < 240 \<and> arrow_next k current = current + 16) \<or>
   (0 < current \<and> arrow_next k current = current - 1) \<or>
   (current < 255 \<and> arrow_next k current = current + 1)"
proof -
  consider (up) "k = ''ArrowUp''"
    | (down) "k \<noteq> ''ArrowUp''" "k = ''ArrowDown''"
    | (left) "k \<noteq> ''ArrowUp''" "k \<noteq> ''ArrowDown''" "k = ''ArrowLeft''"
    | (right) "k \<noteq> ''ArrowUp''" "k \<noteq> ''ArrowDown''" "k \<noteq> ''ArrowLeft''" "k = ''ArrowRight''"
    | (other) "k \<noteq> ''ArrowUp''" "k \<noteq> ''ArrowDown''" "k \<noteq> ''ArrowLeft''" "k \<noteq> ''ArrowRight''"
    by blast
  then show ?thesis
  proof cases
    case up
    have "arrow_next k current = (if current \<ge> 16 then current - 16 else current)"
      by (simp add: arrow_next_def up)
    then show ?thesis by (cases "current \<ge> 16") simp_all
  next
    case down
    have "arrow_next k current = (if current < 240 then current + 16 else current)"
      by (simp add: arrow_next_def down)
    then show ?thesis by (cases "current < 240") simp_all
  next
    case left
    have "arrow_next k current = (if current > 0 then current - 1 else current)"
      by (simp add: arrow_next_def left)
    then show ?thesis by (cases "current > 0") simp_all
  next
    case right
    have "arrow_next k current = (if current < 255 then current + 1 else current)"
      by (simp add: arrow_next_def right)
    then show ?thesis by (cases "current < 255") simp_all
  next
    case other
    have "arrow_next k current = current"
      by (simp add: arrow_next_def other)
    then show ?thesis by simp
  qed
qed

lemma arrow_next_less: "current < 256 \<Longrightarrow> arrow_next k current < 256"
  using arrow_next_cases [of k current] by linarith

lemma handleKeyDown_cases:
  "handleKeyDown e s = Inr s' \<Longrightarrow>
   s' = s \<or> s' = handleCopySelection s \<or> handlePaste s = Inr s' \<or>
   s' = handleResetSelection s \<or>
   s' = handleSelect (arrow_next (key e) (anchor (selection s))) (shiftKey e) False s"
  unfolding handleKeyDown_def Let_def
  by (simp only: split: if_splits) auto

lemma in_grid_handleKeyDown:
  assumes "in_grid s" "handleKeyDown e s = Inr s'"
  shows "in_grid s'"
proof -
  have "arrow_next (key e) (anchor (selection s)) < 256"
    using assms(1) by (simp add: in_grid_def arrow_next_less)
  with handleKeyDown_cases [OF assms(2)] assms(1) show ?thesis
    by (auto simp: in_grid_handleCopySelection in_grid_handleResetSelection
        in_grid_handleSelect dest: in_grid_handlePaste)
qed

lemma in_grid_step:
  assumes "in_grid s" "index_in_grid ev" "step ev s = Inr s'"
  shows "in_grid s'"
proof -
  have cb: "clipboard_ok (clipboard s)"
    using assms(1) by (simp add: in_grid_def)
  from assms show ?thesis
    by (cases ev)
       (auto simp: in_grid_handleNewFont in_grid_handleFontNameChange in_grid_handleSelect
          in_grid_handleUpdateCharacter in_grid_handleCopyFrom in_grid_handleReorder
          in_grid_handleCopySelection in_grid_handleResetSelection
        dest: in_grid_handlePaste in_grid_handleKeyDown in_grid_handleCopyCharacter
          in_grid_handleLoadFont [OF cb])
qed

lemma in_grid_run:
  "in_grid s \<Longrightarrow> list_all index_in_grid evs \<Longrightarrow> run evs s = Inr s' \<Longrightarrow> in_grid s'"
proof (induction evs arbitrary: s)
  case Nil
  then show ?case by simp
next
  case (Cons ev evs)
  from Cons.prems(3) obtain s1 where s1: "step ev s = Inr s1" and r: "run evs s1 = Inr s'"
    by (auto split: sum.splits)
  from Cons.prems(1,2) s1 have "in_grid s1"
    by (auto intro: in_grid_step)
  with Cons.prems(2) r show ?case
    by (auto intro: Cons.IH)
qed

text \<open>
  Claim C6. The table of a font made by \<^verbatim>\<open>createEmptyFont\<close> has 256 slots, so has the
  table of a font that \<^verbatim>\<open>handleLoadFont\<close> accepts, whatever the state it is loaded into,
  and so has the table after any sequence of events from the initial state whose clicks
  are on cells of the grid.
\<close>

theorem table_length_256:
  "length (characters (createEmptyFont nm)) = 256 \<and>
   (handleLoadFont data s = Inr s1 \<longrightarrow> length (characters (font s1)) = 256) \<and>
   (list_all index_in_grid evs \<longrightarrow> run evs initial_state = Inr s' \<longrightarrow>
      length (characters (font s')) = 256)"
proof (intro conjI impI)
  show "length (characters (createEmptyFont nm)) = 256"
    by (simp add: createEmptyFont_def length_arr_set)
next
  assume "handleLoadFont data s = Inr s1"
  then show "length (characters (font s1)) = 256"
    by (auto dest: table_ok_handleLoadFont table_ok_length)
next
  assume "list_all index_in_grid evs" "run evs initial_state = Inr s'"
  with in_grid_initial have "in_grid s'"
    by (rule in_grid_run)
  then show "length (characters (font s')) = 256"
    by (simp add: in_grid_def table_ok_length)
qed

text \<open>
  Three events lead from the initial state to the example state, and loading the empty
  object is accepted.
\<close>

theorem table_length_256_witness:
  "list_all index_in_grid [UpdateCharacter char_A, Select 3 False False, Select 1 True False] \<and>
   run [UpdateCharacter char_A, Select 3 False False, Select 1 True False] initial_state
     = Inr demo_state \<and>
   length (characters (font demo_state)) = 256 \<and>
   (\<exists>s1. handleLoadFont (JObj []) demo_state = Inr s1 \<and> length (characters (font s1)) = 256)"
proof -
  have ev: "list_all index_in_grid
              [UpdateCharacter char_A, Select 3 False False, Select 1 True False]"
    by simp
  have r: "run [UpdateCharacter char_A, Select 3 False False, Select 1 True False] initial_state
             = Inr demo_state"
    by (simp add: demo_state_def)
  obtain s1 where l: "handleLoadFont (JObj []) demo_state = Inr s1"
    by (simp add: handleLoadFont_def get_prop_def load_characters_def)
  from table_length_256 [of nm "JObj []" demo_state s1
      "[UpdateCharacter char_A, Select 3 False False, Select 1 True False]" demo_state]
    ev r l
  show ?thesis by auto
qed

section \<open>Destinations outside the grid\<close>

lemma out_of_bounds_iff: "out_of_bounds d = (d < 0 \<or> 255 < d)"
  by (auto simp: out_of_bounds_def)

text \<open>
  Claim C3. When a destination of \<^verbatim>\<open>handleReorder\<close> or \<^verbatim>\<open>handleCopyCharacter\<close> (a
  selected index plus \<open>toIndex - fromIndex\<close>) or of \<^verbatim>\<open>handlePaste\<close> (the anchor plus a
  stored offset) lies outside 0..255, the handler returns the state it was given: the font
  with its name and all its slots, the selection and the clipboard.
\<close>

theorem out_of_range_rejected:
  "((\<exists>i\<in>set (selected (selection s)).
        int i + (toIndex - fromIndex) < 0 \<or> int i + (toIndex - fromIndex) > 255) \<longrightarrow>
      handleReorder fromIndex toIndex s = s \<and>
      handleCopyCharacter fromIndex toIndex s = Inr s) \<and>
   (\<forall>items. clipboard s = Some items \<longrightarrow>
      (\<exists>item\<in>set items.
          int (anchor (selection s)) + fst item < 0 \<or>
          int (anchor (selection s)) + fst item > 255) \<longrightarrow>
      handlePaste s = Inr s)"
proof (intro conjI impI allI)
  assume "\<exists>i\<in>set (selected (selection s)).
            int i + (toIndex - fromIndex) < 0 \<or> int i + (toIndex - fromIndex) > 255"
  then have out: "list_ex (\<lambda>m. out_of_bounds (snd m))
                    (make_moves (selected (selection s)) (toIndex - fromIndex))"
    by (auto simp: list_ex_iff set_make_moves out_of_bounds_iff)
  show "handleReorder fromIndex toIndex s = s"
    using out by (simp add: handleReorder_def Let_def)
  show "handleCopyCharacter fromIndex toIndex s = Inr s"
    using out by (simp add: handleCopyCharacter_def Let_def)
next
  fix items
  assume cb: "clipboard s = Some items"
    and "\<exists>item\<in>set items.
           int (anchor (selection s)) + fst item < 0 \<or>
           int (anchor (selection s)) + fst item > 255"
  then have "list_ex (\<lambda>p. out_of_bounds (fst p)) (make_pastes (anchor (selection s)) items)"
    by (auto simp: list_ex_iff make_pastes_def out_of_bounds_iff)
  with cb show "handlePaste s = Inr s"
    by (simp add: handlePaste_def Let_def)
qed

text \<open>
  Moving or copying \<open>{1, 2, 3}\<close> by 253 would reach 256; pasting the offset \<open>-2\<close> at
  the anchor 1 would reach \<open>-1\<close>.
\<close>

theorem out_of_range_rejected_witness:
  "selected (selection demo_state) = [1, 2, 3] \<and>
   handleReorder 1 254 demo_state = demo_state \<and>
   handleCopyCharacter 1 254 demo_state = Inr demo_state \<and>
   clipboard demo_clip_state = Some [(- 2, Defined char_A), (0, Defined empty_character)] \<and>
   anchor (selection demo_clip_state) = 1 \<and>
   handlePaste demo_clip_state = Inr demo_clip_state"
proof -
  have sel: "selected (selection demo_state) = [1, 2, 3]"
    by code_simp
  have cb: "clipboard demo_clip_state = Some [(- 2, Defined char_A), (0, Defined empty_character)]"
    by code_simp
  have anc: "anchor (selection demo_clip_state) = 1"
    by code_simp
  from out_of_range_rejected [of demo_state 254 1] sel
  have "handleReorder 1 254 demo_state = demo_state \<and>
        handleCopyCharacter 1 254 demo_state = Inr demo_state"
    by simp
  moreover from out_of_range_rejected [of demo_clip_state] cb anc
  have "handlePaste demo_clip_state = Inr demo_clip_state"
    by simp
  ultimately show ?thesis
    using sel cb anc by simp
qed

section \<open>Moving the selection\<close>

lemma arr_get_clear_sources:
  "arr_get (clear_sources dstSet moves cs) i =
     (if i \<in> fst ` set moves \<and> int i \<notin> set dstSet then Null else arr_get cs i)"
  by (induction moves arbitrary: cs) (auto simp: arr_get_set)

lemma arr_get_place_chars:
  "arr_get (place_chars mcs cs) i =
     (case map_of (rev (map (\<lambda>mc. (nat (fst mc), snd mc)) mcs)) i of
        Some v \<Rightarrow> v
      | None \<Rightarrow> arr_get cs i)"
  by (induction mcs arbitrary: cs) (auto simp: arr_get_set map_add_def split: option.splits)

lemma map_of_shifted:
  "\<forall>j\<in>set xs. 0 \<le> int j + off \<Longrightarrow>
   map_of (map (\<lambda>j. (nat (int j + off), f j)) xs) i =
     (if \<exists>j\<in>set xs. int i = int j + off then Some (f (nat (int i - off))) else None)"
proof (induction xs)
  case Nil
  then show ?case by simp
next
  case (Cons x xs)
  then have ih: "map_of (map (\<lambda>j. (nat (int j + off), f j)) xs) i =
     (if \<exists>j\<in>set xs. int i = int j + off then Some (f (nat (int i - off))) else None)"
    and x: "0 \<le> int x + off"
    by simp_all
  show ?case
  proof (cases "int i = int x + off")
    case True
    then have "nat (int x + off) = i" "nat (int i - off) = x" by simp_all
    then show ?thesis using True by simp
  next
    case False
    with x have "nat (int x + off) \<noteq> i" by auto
    then show ?thesis using False ih by simp
  qed
qed

lemma arr_get_reorder_characters:
  assumes "\<forall>j\<in>set sel. 0 \<le> int j + off"
  shows "arr_get (reorder_characters (make_moves sel off) prev) i =
     (if \<exists>j\<in>set sel. int i = int j + off then arr_get prev (nat (int i - off))
      else if i \<in> set sel then Null
      else arr_get prev i)"
proof -
  have mv: "rev (map (\<lambda>mc. (nat (fst mc), snd mc))
              (map (\<lambda>m. (snd m, arr_get prev (fst m))) (make_moves sel off))) =
            map (\<lambda>j. (nat (int j + off), arr_get prev j)) (rev (sort sel))"
    by (simp add: make_moves_def rev_map comp_def)
  have mo: "map_of (map (\<lambda>j. (nat (int j + off), arr_get prev j)) (rev (sort sel))) i =
     (if \<exists>j\<in>set sel. int i = int j + off then Some (arr_get prev (nat (int i - off)))
      else None)"
    using map_of_shifted [of "rev (sort sel)" off "arr_get prev" i] assms by simp
  have dst: "int i \<in> set (map snd (make_moves sel off)) \<longleftrightarrow> (\<exists>j\<in>set sel. int i = int j + off)"
    by (auto simp: make_moves_def)
  have src: "i \<in> fst ` set (make_moves sel off) \<longleftrightarrow> i \<in> set sel"
    by (auto simp: make_moves_def image_iff)
  show ?thesis
    unfolding reorder_characters_def Let_def arr_get_place_chars mv mo arr_get_clear_sources
      dst src
    by simp
qed

lemma handleReorder_accepted:
  assumes "fromIndex \<noteq> toIndex" "0 \<le> toIndex" "toIndex < 256"
    "\<forall>j\<in>set (selected (selection s)).
       0 \<le> int j + (toIndex - fromIndex) \<and> int j + (toIndex - fromIndex) < 256"
  shows "handleReorder fromIndex toIndex s =
     s\<lparr>font := (font s)\<lparr>characters :=
          reorder_characters (make_moves (selected (selection s)) (toIndex - fromIndex))
            (characters (font s))\<rparr>,
       selection :=
         \<lparr>anchor = clamp_anchor (int (anchor (selection s)) + (toIndex - fromIndex)),
          selected = new_Set (map (\<lambda>m. nat (snd m))
                       (make_moves (selected (selection s)) (toIndex - fromIndex)))\<rparr>\<rparr>"
proof -
  have "\<not> list_ex (\<lambda>m. out_of_bounds (snd m))
          (make_moves (selected (selection s)) (toIndex - fromIndex))"
    using assms(4) by (auto simp: list_ex_iff set_make_moves out_of_bounds_def)
  with assms(1-3) show ?thesis
    by (simp add: handleReorder_def Let_def)
qed

lemma handleReorder_slots:
  assumes "fromIndex \<noteq> toIndex" "0 \<le> toIndex" "toIndex < 256"
    "\<forall>j\<in>set (selected (selection s)).
       0 \<le> int j + (toIndex - fromIndex) \<and> int j + (toIndex - fromIndex) < 256"
  shows "arr_get (characters (font (handleReorder fromIndex toIndex s))) i =
     (if \<exists>j\<in>set (selected (selection s)). int i = int j + (toIndex - fromIndex)
      then arr_get (characters (font s)) (nat (int i - (toIndex - fromIndex)))
      else if i \<in> set (selected (selection s)) then Null
      else arr_get (characters (font s)) i)"
  using assms by (simp add: handleReorder_accepted arr_get_reorder_characters)


text \<open>
  Claim C2, as the code has it. For a move that is carried out (\<open>fromIndex \<noteq> toIndex\<close>,
  \<open>toIndex\<close> and every destination within 0..255): a source slot that is not itself the
  destination of a moved source is left \<^verbatim>\<open>null\<close>; the slot at each destination holds what the
  source held (the same character, or \<^verbatim>\<open>null\<close> for an empty source); every slot that is
  neither a source nor a destination is unchanged.
\<close>

theorem move_slots:
  assumes "fromIndex \<noteq> toIndex" "0 \<le> toIndex" "toIndex < 256"
    and "\<forall>j\<in>set (selected (selection s)).
           0 \<le> int j + (toIndex - fromIndex) \<and> int j + (toIndex - fromIndex) < 256"
  shows "(\<forall>src\<in>set (selected (selection s)).
            (\<forall>j\<in>set (selected (selection s)). int src \<noteq> int j + (toIndex - fromIndex)) \<longrightarrow>
            arr_get (characters (font (handleReorder fromIndex toIndex s))) src = Null) \<and>
         (\<forall>j\<in>set (selected (selection s)).
            arr_get (characters (font (handleReorder fromIndex toIndex s)))
              (nat (int j + (toIndex - fromIndex))) = arr_get (characters (font s)) j) \<and>
         (\<forall>i. i \<notin> set (selected (selection s)) \<longrightarrow>
            (\<forall>j\<in>set (selected (selection s)). int i \<noteq> int j + (toIndex - fromIndex)) \<longrightarrow>
            arr_get (characters (font (handleReorder fromIndex toIndex s))) i =
            arr_get (characters (font s)) i)"
proof (intro conjI ballI allI impI)
  fix src
  assume "src \<in> set (selected (selection s))"
    "\<forall>j\<in>set (selected (selection s)). int src \<noteq> int j + (toIndex - fromIndex)"
  then show "arr_get (characters (font (handleReorder fromIndex toIndex s))) src = Null"
    using handleReorder_slots [OF assms, of src] by auto
next
  fix j
  assume j: "j \<in> set (selected (selection s))"
  then have "\<exists>k\<in>set (selected (selection s)).
               int (nat (int j + (toIndex - fromIndex))) = int k + (toIndex - fromIndex)"
    using assms(4) by (auto intro!: bexI [of _ j])
  moreover have "nat (int (nat (int j + (toIndex - fromIndex))) - (toIndex - fromIndex)) = j"
    using j assms(4) by auto
  ultimately show "arr_get (characters (font (handleReorder fromIndex toIndex s)))
          (nat (int j + (toIndex - fromIndex))) = arr_get (characters (font s)) j"
    using handleReorder_slots [OF assms, of "nat (int j + (toIndex - fromIndex))"] by simp
next
  fix i
  assume "i \<notin> set (selected (selection s))"
    "\<forall>j\<in>set (selected (selection s)). int i \<noteq> int j + (toIndex - fromIndex)"
  then show "arr_get (characters (font (handleReorder fromIndex toIndex s))) i =
             arr_get (characters (font s)) i"
    using handleReorder_slots [OF assms, of i] by auto
qed

text \<open>
  Moving \<open>{2, 3, 4}\<close> by one: slot 2 is cleared, the three characters sit at 3, 4 and 5.
\<close>

theorem move_slots_witness:
  "selected (selection move_state) = [2, 3, 4] \<and>
   arr_get (characters (font (handleReorder 2 3 move_state))) 2 = Null \<and>
   arr_get (characters (font (handleReorder 2 3 move_state))) 3 = Defined char_A \<and>
   arr_get (characters (font (handleReorder 2 3 move_state))) 4 = Defined char_B \<and>
   arr_get (characters (font (handleReorder 2 3 move_state))) 5 = Defined char_C \<and>
   arr_get (characters (font (handleReorder 2 3 move_state))) 0 = Null"
proof -
  have sel: "selected (selection move_state) = [2, 3, 4]"
    by code_simp
  have old: "arr_get (characters (font move_state)) 2 = Defined char_A"
    "arr_get (characters (font move_state)) 3 = Defined char_B"
    "arr_get (characters (font move_state)) 4 = Defined char_C"
    "arr_get (characters (font move_state)) 0 = Null"
    by code_simp+
  have "(2::int) \<noteq> 3" "(0::int) \<le> 3" "(3::int) < 256"
    "\<forall>j\<in>set (selected (selection move_state)). 0 \<le> int j + (3 - 2) \<and> int j + (3 - 2) < 256"
    by (simp_all add: sel)
  from move_slots [OF this] show ?thesis
    by (simp add: sel old)
qed

text \<open>
  The claim as stated fails on the same move. The destination 3 of the source 2 is a moved
  source, and the clearing loop clears slot 2; the destination 5 of the source 4 is not a
  moved source, and the clearing loop leaves slot 4 alone. After the move slot 2 is
  \<^verbatim>\<open>null\<close>.
\<close>

theorem move_clears_counterexample:
  "selected (selection move_state) = [2, 3, 4] \<and>
   arr_get (characters (font move_state)) 2 = Defined char_A \<and>
   arr_get (characters (font move_state)) 4 = Defined char_C \<and>
   map snd (make_moves (selected (selection move_state)) (3 - 2)) = [3, 4, 5] \<and>
   arr_get (clear_sources [3, 4, 5] (make_moves (selected (selection move_state)) (3 - 2))
              (characters (font move_state))) 2 = Null \<and>
   arr_get (clear_sources [3, 4, 5] (make_moves (selected (selection move_state)) (3 - 2))
              (characters (font move_state))) 4 = Defined char_C \<and>
   arr_get (characters (font (handleReorder 2 3 move_state))) 2 = Null"
proof -
  have "selected (selection move_state) = [2, 3, 4]"
    by code_simp
  moreover have "arr_get (characters (font move_state)) 2 = Defined char_A"
    by code_simp
  moreover have "arr_get (characters (font move_state)) 4 = Defined char_C"
    by code_simp
  moreover have "map snd (make_moves (selected (selection move_state)) (3 - 2)) = [3, 4, 5]"
    by code_simp
  moreover have "arr_get (clear_sources [3, 4, 5]
          (make_moves (selected (selection move_state)) (3 - 2))
          (characters (font move_state))) 2 = Null"
    by code_simp
  moreover have "arr_get (clear_sources [3, 4, 5]
          (make_moves (selected (selection move_state)) (3 - 2))
          (characters (font move_state))) 4 = Defined char_C"
    by code_simp
  moreover have "arr_get (characters (font (handleReorder 2 3 move_state))) 2 = Null"
    by code_simp
  ultimately show ?thesis by simp
qed

section \<open>Moving there and back\<close>






section \<open>Copying to the clipboard and pasting\<close>

lemma place_pastes_slots:
  "place_pastes pastes cs = Inr cs' \<Longrightarrow> distinct (map (\<lambda>p. nat (fst p)) pastes) \<Longrightarrow>
   (\<forall>p\<in>set pastes. \<forall>c. snd p = Defined c \<longrightarrow>
        (\<exists>copied. copy_of c = Inr copied \<and> arr_get cs' (nat (fst p)) = Defined copied)) \<and>
   (\<forall>i. i \<notin> (\<lambda>p. nat (fst p)) ` set pastes \<longrightarrow> arr_get cs' i = arr_get cs i)"
proof (induction pastes arbitrary: cs)
  case Nil
  then show ?case by simp
next
  case (Cons p rest)
  from Cons.prems(1) obtain c copied where c: "snd p = Defined c"
    and cp: "copy_of c = Inr copied"
    and rest: "place_pastes rest (arr_set cs (nat (fst p)) (Defined copied)) = Inr cs'"
    by (auto split: slot.splits sum.splits)
  from Cons.prems(2) have d: "distinct (map (\<lambda>p. nat (fst p)) rest)"
    and fresh: "nat (fst p) \<notin> (\<lambda>p. nat (fst p)) ` set rest"
    by auto
  note ih = Cons.IH [OF rest d]
  from ih fresh have "arr_get cs' (nat (fst p)) = Defined copied"
    by (simp add: arr_get_set)
  moreover have "arr_get cs' i = arr_get cs i"
    if "i \<notin> (\<lambda>p. nat (fst p)) ` set (p # rest)" for i
    using ih that by (simp add: arr_get_set)
  ultimately show ?case
    using ih c cp by auto
qed

text \<open>A stored character whose name cannot be converted makes the whole paste throw.\<close>

lemma place_pastes_throws:
  "\<exists>p\<in>set pastes. \<forall>c. snd p = Defined c \<longrightarrow> copy_of c = Inl TypeError \<Longrightarrow>
   place_pastes pastes cs = Inl TypeError"
proof (induction pastes arbitrary: cs)
  case Nil
  then show ?case by simp
next
  case (Cons p rest)
  show ?case
  proof (cases "place_pastes (p # rest) cs")
    case (Inl e)
    then show ?thesis by (cases e) simp
  next
    case (Inr cs')
    then obtain c copied where c: "snd p = Defined c" and cp: "copy_of c = Inr copied"
      and rest: "place_pastes rest (arr_set cs (nat (fst p)) (Defined copied)) = Inr cs'"
      by (auto split: slot.splits sum.splits)
    from Cons.prems c cp
    have "\<exists>p\<in>set rest. \<forall>c. snd p = Defined c \<longrightarrow> copy_of c = Inl TypeError"
      by auto
    from Cons.IH [OF this, of "arr_set cs (nat (fst p)) (Defined copied)"] rest
    show ?thesis by simp
  qed
qed

lemma load_copy_paste_throws:
  "run [LoadFont odd_name_data, CopySelection, Paste] initial_state = Inl TypeError"
  by code_simp

lemma set_snapshot:
  "set (snapshot s) =
     (\<lambda>i. (int i - int (anchor (selection s)), arr_get (characters (font s)) i)) `
       {i \<in> set (selected (selection s)). arr_get (characters (font s)) i \<noteq> Null}"
  by (auto simp: snapshot_def)

lemma distinct_snapshot:
  "distinct (selected (selection s)) \<Longrightarrow> distinct (map fst (snapshot s))"
  by (auto simp: snapshot_def distinct_map filter_map comp_def inj_on_def)

lemma handlePaste_accepted:
  assumes cb: "clipboard s = Some items" and ne: "items \<noteq> []"
    and ok: "\<forall>item\<in>set items.
               0 \<le> int (anchor (selection s)) + fst item \<and>
               int (anchor (selection s)) + fst item < 256 \<and>
               (\<exists>c. snd item = Defined c \<and> plain_name (name c))"
  shows "\<exists>cs'. place_pastes (make_pastes (anchor (selection s)) items) (characters (font s))
                 = Inr cs' \<and>
               handlePaste s =
                 Inr (s\<lparr>font := (font s)\<lparr>characters := cs'\<rparr>,
                       selection :=
                         \<lparr>anchor = anchor (selection s),
                          selected = new_Set (map (\<lambda>p. nat (fst p))
                                       (make_pastes (anchor (selection s)) items))\<rparr>\<rparr>)"
proof -
  have "list_all (\<lambda>p. case snd p of Defined c \<Rightarrow> plain_name (name c) | _ \<Rightarrow> False)
          (make_pastes (anchor (selection s)) items)"
    using ok by (auto simp: make_pastes_def list_all_iff)
  from place_pastes_total [OF this, of "characters (font s)"] obtain cs' where
    pl: "place_pastes (make_pastes (anchor (selection s)) items) (characters (font s)) = Inr cs'"
    by blast
  have "\<not> list_ex (\<lambda>p. out_of_bounds (fst p)) (make_pastes (anchor (selection s)) items)"
    using ok by (auto simp: list_ex_iff make_pastes_def out_of_bounds_def)
  with cb ne pl show ?thesis
    by (simp add: handlePaste_def Let_def)
qed

text \<open>
  Claim C8, as the code has it. \<^verbatim>\<open>handleCopySelection\<close> stores the pairs of
  \<open>index - anchor\<close> and the slot's content for the selected indices whose slot is not
  \<^verbatim>\<open>null\<close>, and leaves the clipboard alone when there is none; it changes neither the font
  nor the selection. \<^verbatim>\<open>handlePaste\<close>, when every \<open>anchor + offset\<close> lies within 0..255
  and every stored character has a string for its name or none, writes at each
  \<open>anchor + offset\<close> a new character with the stored segments, named after the stored
  character with \<^verbatim>\<open>_copy\<close> appended when that one has a name and \<^verbatim>\<open>null\<close> otherwise; the
  selected set becomes the destinations, and the anchor, the other slots, the font's name
  and the clipboard stay.
\<close>

theorem copy_paste_spec:
  "clipboard (handleCopySelection s) = (if snapshot s = [] then clipboard s else Some (snapshot s)) \<and>
   font (handleCopySelection s) = font s \<and>
   selection (handleCopySelection s) = selection s \<and>
   set (snapshot s) =
     (\<lambda>i. (int i - int (anchor (selection s)), arr_get (characters (font s)) i)) `
       {i \<in> set (selected (selection s)). arr_get (characters (font s)) i \<noteq> Null} \<and>
   (clipboard s = Some items \<longrightarrow> items \<noteq> [] \<longrightarrow> distinct (map fst items) \<longrightarrow>
    (\<forall>item\<in>set items.
        0 \<le> int (anchor (selection s)) + fst item \<and>
        int (anchor (selection s)) + fst item < 256 \<and>
        (\<exists>c. snd item = Defined c \<and> plain_name (name c))) \<longrightarrow>
    (\<exists>s'. handlePaste s = Inr s' \<and>
       (\<forall>item\<in>set items. \<forall>c. snd item = Defined c \<longrightarrow>
           arr_get (characters (font s')) (nat (int (anchor (selection s)) + fst item)) =
             Defined \<lparr>segments = segments c,
                      name = (case name c of
                                JStr str \<Rightarrow> if str = [] then JNull else JStr (str @ ''_copy'')
                              | _ \<Rightarrow> JNull)\<rparr>) \<and>
       (\<forall>i. (\<forall>item\<in>set items. int i \<noteq> int (anchor (selection s)) + fst item) \<longrightarrow>
           arr_get (characters (font s')) i = arr_get (characters (font s)) i) \<and>
       selected (selection s') =
         map (\<lambda>item. nat (int (anchor (selection s)) + fst item)) items \<and>
       anchor (selection s') = anchor (selection s) \<and>
       font_name (font s') = font_name (font s) \<and>
       clipboard s' = clipboard s))"
proof (intro conjI impI)
  show "clipboard (handleCopySelection s) =
          (if snapshot s = [] then clipboard s else Some (snapshot s))"
    by (simp add: handleCopySelection_def)
  show "font (handleCopySelection s) = font s"
    by (simp add: handleCopySelection_def)
  show "selection (handleCopySelection s) = selection s"
    by (simp add: handleCopySelection_def)
  show "set (snapshot s) =
     (\<lambda>i. (int i - int (anchor (selection s)), arr_get (characters (font s)) i)) `
       {i \<in> set (selected (selection s)). arr_get (characters (font s)) i \<noteq> Null}"
    by (rule set_snapshot)
next
  let ?a = "anchor (selection s)"
  let ?P = "make_pastes ?a items"
  let ?copy = "\<lambda>c. \<lparr>segments = segments c,
                     name = (case name c of
                               JStr str \<Rightarrow> if str = [] then JNull else JStr (str @ ''_copy'')
                             | _ \<Rightarrow> JNull)\<rparr>"
  assume cb: "clipboard s = Some items" and ne: "items \<noteq> []"
    and dist: "distinct (map fst items)"
    and ok: "\<forall>item\<in>set items.
               0 \<le> int ?a + fst item \<and> int ?a + fst item < 256 \<and>
               (\<exists>c. snd item = Defined c \<and> plain_name (name c))"
  from handlePaste_accepted [OF cb ne ok] obtain cs' where
    pl: "place_pastes ?P (characters (font s)) = Inr cs'" and
    hp: "handlePaste s =
           Inr (s\<lparr>font := (font s)\<lparr>characters := cs'\<rparr>,
                 selection := \<lparr>anchor = ?a,
                                selected = new_Set (map (\<lambda>p. nat (fst p)) ?P)\<rparr>\<rparr>)"
    by blast
  have dsts: "map (\<lambda>p. nat (fst p)) ?P = map (\<lambda>item. nat (int ?a + fst item)) items"
    by (simp add: make_pastes_def comp_def)
  have inj: "inj_on (\<lambda>item. nat (int ?a + fst item)) (set items)"
  proof (rule inj_onI)
    fix x y
    assume x: "x \<in> set items" and y: "y \<in> set items"
      and e: "nat (int ?a + fst x) = nat (int ?a + fst y)"
    from x y ok have "0 \<le> int ?a + fst x" "0 \<le> int ?a + fst y" by blast+
    with e have "fst x = fst y" by simp
    with dist x y show "x = y"
      by (simp add: distinct_map inj_on_def)
  qed
  have dd: "distinct (map (\<lambda>p. nat (fst p)) ?P)"
    unfolding dsts using dist inj by (simp add: distinct_map)
  note slots = place_pastes_slots [OF pl dd]
  have written: "arr_get cs' (nat (int ?a + fst item)) = Defined (?copy c)"
    if it: "item \<in> set items" and c: "snd item = Defined c" for item c
  proof -
    from it have "(int ?a + fst item, snd item) \<in> set ?P"
      by (auto simp: make_pastes_def)
    with slots c obtain copied where
      cp: "copy_of c = Inr copied" and
      sl: "arr_get cs' (nat (int ?a + fst item)) = Defined copied"
      by fastforce
    from it c ok have "plain_name (name c)" by fastforce
    from copy_of_plain [OF this] cp have "copied = ?copy c" by simp
    with sl show ?thesis by simp
  qed
  have kept: "arr_get cs' i = arr_get (characters (font s)) i"
    if "\<forall>item\<in>set items. int i \<noteq> int ?a + fst item" for i
  proof -
    have "i \<notin> (\<lambda>p. nat (fst p)) ` set ?P"
    proof
      assume "i \<in> (\<lambda>p. nat (fst p)) ` set ?P"
      then obtain item where it: "item \<in> set items" and "i = nat (int ?a + fst item)"
        by (auto simp: make_pastes_def)
      with ok have "int i = int ?a + fst item" by simp
      with that it show False by blast
    qed
    with slots show ?thesis by blast
  qed
  show "\<exists>s'. handlePaste s = Inr s' \<and>
       (\<forall>item\<in>set items. \<forall>c. snd item = Defined c \<longrightarrow>
           arr_get (characters (font s')) (nat (int ?a + fst item)) = Defined (?copy c)) \<and>
       (\<forall>i. (\<forall>item\<in>set items. int i \<noteq> int ?a + fst item) \<longrightarrow>
           arr_get (characters (font s')) i = arr_get (characters (font s)) i) \<and>
       selected (selection s') = map (\<lambda>item. nat (int ?a + fst item)) items \<and>
       anchor (selection s') = ?a \<and>
       font_name (font s') = font_name (font s) \<and>
       clipboard s' = clipboard s"
    using written kept dd
    by (simp add: hp dsts new_Set_distinct)
qed

text \<open>
  The scenario: copying \<open>{4, 6}\<close> with the anchor 4 stores the offsets 0 and 2, and pasting
  with the anchor 20 writes the slots 20 and 22.
\<close>

theorem copy_paste_spec_witness:
  "selection copy_state = \<lparr>anchor = 4, selected = [6, 4]\<rparr> \<and>
   clipboard (handleCopySelection copy_state)
     = Some [(0, Defined char_A), (2, Defined char_B)] \<and>
   anchor (selection paste_state) = 20 \<and>
   (\<exists>s'. handlePaste paste_state = Inr s' \<and>
      arr_get (characters (font s')) 20 = Defined \<lparr>segments = JNum 5, name = JStr ''A_copy''\<rparr> \<and>
      arr_get (characters (font s')) 22 = Defined \<lparr>segments = JNum 7, name = JStr ''B_copy''\<rparr> \<and>
      selected (selection s') = [20, 22] \<and>
      anchor (selection s') = 20)"
proof -
  have sel: "selection copy_state = \<lparr>anchor = 4, selected = [6, 4]\<rparr>"
    by code_simp
  have snap: "snapshot copy_state = [(0, Defined char_A), (2, Defined char_B)]"
    by code_simp
  have cb: "clipboard paste_state = Some [(0, Defined char_A), (2, Defined char_B)]"
    by code_simp
  have anc: "anchor (selection paste_state) = 20"
    by code_simp
  have copied: "clipboard (handleCopySelection copy_state)
                  = Some [(0, Defined char_A), (2, Defined char_B)]"
    using copy_paste_spec [of copy_state] by (simp add: snap)
  have pasted: "\<exists>s'. handlePaste paste_state = Inr s' \<and>
      arr_get (characters (font s')) 20 = Defined \<lparr>segments = JNum 5, name = JStr ''A_copy''\<rparr> \<and>
      arr_get (characters (font s')) 22 = Defined \<lparr>segments = JNum 7, name = JStr ''B_copy''\<rparr> \<and>
      selected (selection s') = [20, 22] \<and>
      anchor (selection s') = 20"
    using copy_paste_spec [of paste_state "[(0, Defined char_A), (2, Defined char_B)]"]
    by (simp add: cb anc char_A_def char_B_def) blast
  from sel copied anc pasted show ?thesis
    by blast
qed

text \<open>
  The claim as stated has the stored character written; the character written at slot 20
  is not the stored \<open>char_A\<close>: its name is \<^verbatim>\<open>A_copy\<close>.
\<close>

theorem paste_renames_counterexample:
  "clipboard paste_state = Some [(0, Defined char_A), (2, Defined char_B)] \<and>
   anchor (selection paste_state) = 20 \<and>
   map_sum id (\<lambda>s'. arr_get (characters (font s')) 20) (handlePaste paste_state)
     = Inr (Defined \<lparr>segments = JNum 5, name = JStr ''A_copy''\<rparr>) \<and>
   char_A = \<lparr>segments = JNum 5, name = JStr ''A''\<rparr> \<and>
   Defined \<lparr>segments = JNum 5, name = JStr ''A_copy''\<rparr> \<noteq> Defined char_A"
proof -
  have "clipboard paste_state = Some [(0, Defined char_A), (2, Defined char_B)]"
    by code_simp
  moreover have "anchor (selection paste_state) = 20"
    by code_simp
  moreover have "map_sum id (\<lambda>s'. arr_get (characters (font s')) 20) (handlePaste paste_state)
     = Inr (Defined \<lparr>segments = JNum 5, name = JStr ''A_copy''\<rparr>)"
    by code_simp
  moreover have "char_A = \<lparr>segments = JNum 5, name = JStr ''A''\<rparr>"
    by (simp add: char_A_def)
  moreover have "Defined \<lparr>segments = JNum 5, name = JStr ''A_copy''\<rparr> \<noteq> Defined char_A"
    by (simp add: char_A_def)
  ultimately show ?thesis by simp
qed

section \<open>Loading a font\<close>

lemma load_forEach_below:
  "load_forEach idx entries cs = Inr cs' \<Longrightarrow> i < idx \<Longrightarrow> arr_get cs' i = arr_get cs i"
proof (induction entries arbitrary: idx cs)
  case Nil
  then show ?case by simp
next
  case (Cons ch rest)
  show ?case
  proof (cases "idx < 256 \<and> ch \<noteq> JNull")
    case True
    with Cons.prems(1) obtain sg nm where
      rest: "load_forEach (Suc idx) rest
               (arr_set cs idx (Defined \<lparr>segments = js_or sg (JNum 0), name = js_or nm JNull\<rparr>))
             = Inr cs'"
      by (auto split: sum.splits)
    from Cons.IH [OF rest] Cons.prems(2) show ?thesis
      by (simp add: arr_get_set)
  next
    case False
    with Cons.prems(1) have "load_forEach (Suc idx) rest cs = Inr cs'"
      by auto
    from Cons.IH [OF this] Cons.prems(2) show ?thesis
      by simp
  qed
qed

lemma load_forEach_kept:
  "load_forEach idx entries cs = Inr cs' \<Longrightarrow> k < length entries \<Longrightarrow> idx + k < 256 \<Longrightarrow>
   entries ! k \<noteq> JNull \<Longrightarrow>
   \<exists>sg nm. get_prop (entries ! k) ''segments'' = Inr sg \<and>
           get_prop (entries ! k) ''name'' = Inr nm \<and>
           arr_get cs' (idx + k) =
             Defined \<lparr>segments = js_or sg (JNum 0), name = js_or nm JNull\<rparr>"
proof (induction entries arbitrary: idx cs k)
  case Nil
  then show ?case by simp
next
  case (Cons ch rest)
  show ?case
  proof (cases k)
    case 0
    with Cons.prems have keep: "idx < 256 \<and> ch \<noteq> JNull"
      by simp
    with Cons.prems(1) obtain sg nm where
      sg: "get_prop ch ''segments'' = Inr sg" and nm: "get_prop ch ''name'' = Inr nm" and
      rest: "load_forEach (Suc idx) rest
               (arr_set cs idx (Defined \<lparr>segments = js_or sg (JNum 0), name = js_or nm JNull\<rparr>))
             = Inr cs'"
      by (auto split: sum.splits)
    from load_forEach_below [OF rest, of idx]
    have "arr_get cs' idx = Defined \<lparr>segments = js_or sg (JNum 0), name = js_or nm JNull\<rparr>"
      by (simp add: arr_get_set)
    with sg nm 0 show ?thesis by simp
  next
    case (Suc k')
    from Cons.prems(1) obtain cs1 where rest: "load_forEach (Suc idx) rest cs1 = Inr cs'"
      by (auto split: sum.splits if_splits)
    from Cons.IH [OF rest, of k'] Cons.prems(2-4) Suc show ?thesis
      by simp
  qed
qed

text \<open>
  Claim C5, as the code has it. When \<^verbatim>\<open>handleLoadFont\<close> accepts its input, every entry it
  keeps (below index 256 and not \<^verbatim>\<open>null\<close>) is stored with \<^verbatim>\<open>segments || 0\<close> and
  \<^verbatim>\<open>name || null\<close>: a missing or falsy segments field becomes 0 and any other value is
  stored as it is, a missing or falsy name becomes \<^verbatim>\<open>null\<close> and any other is kept.
\<close>

theorem load_normalizes:
  assumes "handleLoadFont data s = Inr s'"
    and "get_prop data ''characters'' = Inr (JArr entries)"
    and "i < length entries" "i < 256" "entries ! i \<noteq> JNull"
  shows "\<exists>sg nm. get_prop (entries ! i) ''segments'' = Inr sg \<and>
                 get_prop (entries ! i) ''name'' = Inr nm \<and>
                 arr_get (characters (font s')) i =
                   Defined \<lparr>segments = (if truthy sg then sg else JNum 0),
                            name = (if truthy nm then nm else JNull)\<rparr>"
proof -
  from assms(1,2) obtain cs where
    ld: "load_forEach 0 entries (replicate 256 Null) = Inr cs" and
    s': "characters (font s') =
           (if arr_get cs 0 = Null then arr_set cs 0 (Defined empty_character) else cs)"
    by (auto simp: handleLoadFont_def load_characters_def split: sum.splits)
  from load_forEach_kept [OF ld assms(3), simplified, OF assms(4,5)] obtain sg nm where
    sg: "get_prop (entries ! i) ''segments'' = Inr sg" and
    nm: "get_prop (entries ! i) ''name'' = Inr nm" and
    sl: "arr_get cs i = Defined \<lparr>segments = js_or sg (JNum 0), name = js_or nm JNull\<rparr>"
    by blast
  have "arr_get (characters (font s')) i = arr_get cs i"
    using sl by (cases "i = 0") (simp_all add: s' arr_get_set)
  with sg nm sl show ?thesis
    by (simp add: js_or_def)
qed

text \<open>
  In the example file the entry 2 has no segments and the entry 3 has the empty name.
\<close>

theorem load_normalizes_witness:
  "map_sum id (\<lambda>s'. map (arr_get (characters (font s'))) [2, 3])
     (handleLoadFont odd_data initial_state)
   = Inr [Defined \<lparr>segments = JNum 0, name = JStr ''B''\<rparr>,
          Defined \<lparr>segments = JNum 9, name = JNull\<rparr>]"
proof -
  let ?entries = "[JObj [(''segments'', JStr ''abc'')], JNull, JObj [(''name'', JStr ''B'')],
                   JObj [(''segments'', JNum 9), (''name'', JStr [])]]"
  obtain s' where l: "handleLoadFont odd_data initial_state = Inr s'"
    by (simp add: handleLoadFont_def odd_data_def get_prop_def load_characters_def
        split: sum.splits)
  have c: "get_prop odd_data ''characters'' = Inr (JArr ?entries)"
    by (simp add: odd_data_def get_prop_def)
  from load_normalizes [OF l c, of 2] load_normalizes [OF l c, of 3]
  have "arr_get (characters (font s')) 2 = Defined \<lparr>segments = JNum 0, name = JStr ''B''\<rparr>"
    "arr_get (characters (font s')) 3 = Defined \<lparr>segments = JNum 9, name = JNull\<rparr>"
    by (simp_all add: get_prop_def)
  with l show ?thesis by simp
qed

text \<open>
  The claim as stated makes every loaded segments value a number; the entry 0 of the example
  file is loaded with the string it had.
\<close>

theorem load_keeps_string_counterexample:
  "map_sum id (\<lambda>s'. arr_get (characters (font s')) 0) (handleLoadFont odd_data initial_state)
     = Inr (Defined \<lparr>segments = JStr ''abc'', name = JNull\<rparr>) \<and>
   \<not> is_number (JStr ''abc'')"
proof -
  have "map_sum id (\<lambda>s'. arr_get (characters (font s')) 0)
          (handleLoadFont odd_data initial_state)
        = Inr (Defined \<lparr>segments = JStr ''abc'', name = JNull\<rparr>)"
    by code_simp
  then show ?thesis by simp
qed

section \<open>Arrow keys\<close>

lemma handleKeyDown_arrow:
  assumes "key e \<in> set [''ArrowUp'', ''ArrowDown'', ''ArrowLeft'', ''ArrowRight'']"
  shows "handleKeyDown e s =
     (if arrow_next (key e) (anchor (selection s)) \<noteq> anchor (selection s)
      then Inr (handleSelect (arrow_next (key e) (anchor (selection s))) (shiftKey e) False s)
      else Inr s)"
proof -
  from assms consider "key e = ''ArrowUp''" | "key e = ''ArrowDown''"
    | "key e = ''ArrowLeft''" | "key e = ''ArrowRight''"
    by auto
  then show ?thesis
    by cases (simp_all add: handleKeyDown_def Let_def)
qed

text \<open>
  Claim C4, as the code has it. An arrow key makes \<^verbatim>\<open>handleKeyDown\<close> call
  \<^verbatim>\<open>handleSelect\<close> on the clamped neighbour of the anchor, with the shift modifier of the
  key event, unless the neighbour is the anchor itself (the anchor is at the edge of the
  grid), when nothing changes. The call treats the table as a click does: the blank
  characters of the previous selection other than the target become \<^verbatim>\<open>null\<close>, and
  without shift a \<^verbatim>\<open>null\<close> target becomes a blank character.
\<close>

theorem arrow_key_selects:
  assumes "key e \<in> set [''ArrowUp'', ''ArrowDown'', ''ArrowLeft'', ''ArrowRight'']"
  shows "\<exists>s'. handleKeyDown e s = Inr s' \<and>
     (if arrow_next (key e) (anchor (selection s)) = anchor (selection s) then s' = s
      else
        selection s' =
          select_selection (arrow_next (key e) (anchor (selection s))) (shiftKey e) False
            (selection s) \<and>
        (\<forall>i. arr_get (characters (font s')) i =
           (if i = arrow_next (key e) (anchor (selection s)) then
              (if \<not> shiftKey e \<and> arr_get (characters (font s)) i = Null
               then Defined \<lparr>segments = JNum 0, name = JNull\<rparr>
               else arr_get (characters (font s)) i)
            else if i \<in> set (selected (selection s)) \<and>
                    is_empty_content (arr_get (characters (font s)) i)
              then Null
            else arr_get (characters (font s)) i)))"
  by (simp add: handleKeyDown_arrow [OF assms] handleSelect_def arr_get_select_font
      empty_character_def)

text \<open>
  In the initial state the right arrow selects slot 1, creating a blank character there and
  reverting slot 0; the left arrow, at the left edge, changes nothing.
\<close>

theorem arrow_key_selects_witness:
  "map_sum id (\<lambda>s'. (selection s', map (arr_get (characters (font s'))) [0, 1]))
     (handleKeyDown arrow_right initial_state)
     = Inr (\<lparr>anchor = 1, selected = [1]\<rparr>,
            [Null, Defined \<lparr>segments = JNum 0, name = JNull\<rparr>]) \<and>
   handleKeyDown arrow_left initial_state = Inr initial_state"
proof -
  have k: "key arrow_right \<in> set [''ArrowUp'', ''ArrowDown'', ''ArrowLeft'', ''ArrowRight'']"
    "key arrow_left \<in> set [''ArrowUp'', ''ArrowDown'', ''ArrowLeft'', ''ArrowRight'']"
    by (simp_all add: arrow_right_def arrow_left_def)
  have nx: "arrow_next (key arrow_right) 0 = 1"
    "arrow_next (key arrow_left) 0 = 0"
    "anchor (selection initial_state) = 0"
    "selected (selection initial_state) = [0]"
    "shiftKey arrow_right = False"
    by code_simp+
  have sl: "arr_get (characters (font initial_state)) 0 = Defined empty_character"
    "arr_get (characters (font initial_state)) (Suc 0) = Null"
    by (simp_all add: initial_slot)
  have ss: "select_selection 1 False False (selection initial_state) = \<lparr>anchor = 1, selected = [1]\<rparr>"
    by code_simp
  have ss': "select_selection (Suc 0) False False (selection initial_state)
               = \<lparr>anchor = Suc 0, selected = [Suc 0]\<rparr>"
    using ss by simp
  from arrow_key_selects [OF k(1), of initial_state]
  have "map_sum id (\<lambda>s'. (selection s', map (arr_get (characters (font s'))) [0, 1]))
     (handleKeyDown arrow_right initial_state)
     = Inr (\<lparr>anchor = 1, selected = [1]\<rparr>,
            [Null, Defined \<lparr>segments = JNum 0, name = JNull\<rparr>])"
    by (auto simp: nx sl ss' empty_character_def)
  moreover from arrow_key_selects [OF k(2), of initial_state]
  have "handleKeyDown arrow_left initial_state = Inr initial_state"
    by (auto simp: nx)
  ultimately show ?thesis by simp
qed

text \<open>
  The claim as stated has the table unchanged by arrow-key navigation; the right arrow in
  the initial state changes the slots 0 and 1.
\<close>

theorem arrow_key_changes_table_counterexample:
  "map (arr_get (characters (font initial_state))) [0, 1]
     = [Defined \<lparr>segments = JNum 0, name = JNull\<rparr>, Null] \<and>
   map_sum id (\<lambda>s'. map (arr_get (characters (font s'))) [0, 1])
     (handleKeyDown arrow_right initial_state)
     = Inr [Null, Defined \<lparr>segments = JNum 0, name = JNull\<rparr>]"
proof -
  have "map (arr_get (characters (font initial_state))) [0, 1]
     = [Defined \<lparr>segments = JNum 0, name = JNull\<rparr>, Null]"
    by code_simp
  moreover have "map_sum id (\<lambda>s'. map (arr_get (characters (font s'))) [0, 1])
     (handleKeyDown arrow_right initial_state)
     = Inr [Null, Defined \<lparr>segments = JNum 0, name = JNull\<rparr>]"
    by code_simp
  ultimately show ?thesis by simp
qed

section \<open>The anchor and the selected set\<close>

text \<open>
  The transitions that keep the anchor in the selected set: a plain click, a shift-click, a
  ctrl-click that adds an index or removes the anchor itself, and a move from a state whose
  anchor is selected.
\<close>

lemma select_selection_anchor:
  assumes "shift \<or> \<not> ctrl \<or> index \<notin> set (selected sel) \<or> index = anchor sel"
  shows "anchor (select_selection index shift ctrl sel)
           \<in> set (selected (select_selection index shift ctrl sel))"
proof -
  have "set_delete (selected sel) index \<noteq> [] \<Longrightarrow>
        set_delete (selected sel) index ! 0 \<in> set (set_delete (selected sel) index)"
    by (rule nth_mem) simp
  with assms show ?thesis
    by (auto simp: select_selection_def Let_def set_createSelectionRange
        simp del: set_set_delete)
qed

lemma handleReorder_anchor:
  assumes "anchor (selection s) \<in> set (selected (selection s))"
  shows "anchor (selection (handleReorder fromIndex toIndex s))
           \<in> set (selected (selection (handleReorder fromIndex toIndex s)))"
proof (cases "handleReorder fromIndex toIndex s = s")
  case True
  with assms show ?thesis by simp
next
  case False
  then have ok: "\<not> list_ex (\<lambda>m. out_of_bounds (snd m))
                    (make_moves (selected (selection s)) (toIndex - fromIndex))"
    and sel: "selection (handleReorder fromIndex toIndex s) =
       \<lparr>anchor = clamp_anchor (int (anchor (selection s)) + (toIndex - fromIndex)),
        selected = new_Set (map (\<lambda>m. nat (snd m))
                     (make_moves (selected (selection s)) (toIndex - fromIndex)))\<rparr>"
    by (auto simp: handleReorder_def Let_def split: if_splits)
  from ok assms have "\<not> out_of_bounds (int (anchor (selection s)) + (toIndex - fromIndex))"
    by (auto simp: list_ex_iff set_make_moves)
  then have "clamp_anchor (int (anchor (selection s)) + (toIndex - fromIndex)) =
             nat (int (anchor (selection s)) + (toIndex - fromIndex))"
    by (auto simp: clamp_anchor_def out_of_bounds_def)
  with assms show ?thesis
    by (auto simp: sel set_make_moves image_iff intro!: bexI [of _ "anchor (selection s)"])
qed

text \<open>
  Claim C1. The anchor is a member of the selected set after every transition. The handlers
  do not keep this: from the initial state, a ctrl-click on 5 and a ctrl-click on 0 (which
  is selected and is not the anchor) leave the anchor 0 with \<open>{5}\<close> selected, and one more
  ctrl-click on 5 leaves nothing selected. Pasting a clipboard with no entry at offset 0
  leaves the anchor outside the selection too.
\<close>

theorem ctrl_deselect_anchor_outside:
  "selection (handleSelect 5 False True initial_state) = \<lparr>anchor = 5, selected = [0, 5]\<rparr> \<and>
   selection (handleSelect 0 False True (handleSelect 5 False True initial_state))
     = \<lparr>anchor = 0, selected = [5]\<rparr> \<and>
   selection (handleSelect 5 False True
                (handleSelect 0 False True (handleSelect 5 False True initial_state)))
     = \<lparr>anchor = 5, selected = []\<rparr> \<and>
   selection gap_state = \<lparr>anchor = 3, selected = [1, 2, 3]\<rparr> \<and>
   map_sum id selection (handlePaste (handleCopySelection gap_state))
     = Inr \<lparr>anchor = 3, selected = [1]\<rparr>"
proof -
  have "selection (handleSelect 5 False True initial_state) = \<lparr>anchor = 5, selected = [0, 5]\<rparr>"
    by code_simp
  moreover have "selection (handleSelect 0 False True (handleSelect 5 False True initial_state))
     = \<lparr>anchor = 0, selected = [5]\<rparr>"
    by code_simp
  moreover have "selection (handleSelect 5 False True
                (handleSelect 0 False True (handleSelect 5 False True initial_state)))
     = \<lparr>anchor = 5, selected = []\<rparr>"
    by code_simp
  moreover have "selection gap_state = \<lparr>anchor = 3, selected = [1, 2, 3]\<rparr>"
    by code_simp
  moreover have "map_sum id selection (handlePaste (handleCopySelection gap_state))
     = Inr \<lparr>anchor = 3, selected = [1]\<rparr>"
    by code_simp
  ultimately show ?thesis by simp
qed

end
